(* ===== verification/Prelude.thy ===== *)
theory Prelude
  imports Complex_Main "HOL-Library.Multiset" "HOL-Library.AList"
begin

text \<open>
  Shared vocabulary of the development: the names of the model's basic types, the
  collections of facts the component theories fill in, and generic lemmas on lists,
  options, floors and sums that several components use (the payout allocator, the
  scoring rule of the lifecycle engine and the ledger all sum integer lists).
\<close>

section \<open>Names of the model's types\<close>

text \<open>
  Timestamps of the source are ISO-8601 strings produced by \<open>new Date(..).toISOString()\<close>
  and read back with \<open>getTime()\<close>; the round trip is exact to the millisecond, so the
  model keeps the millisecond count. Identifiers are strings. Currency amounts
  (gems) and scores are JavaScript numbers that the code only ever sets to integers.
\<close>

type_synonym ms = nat
type_synonym user_id = string
type_synonym match_id = string
type_synonym lobby_type = string

section \<open>Fact collections\<close>

named_theorems model_defs "unfolding rules of the model's operations"
named_theorems wf_intros "rules that establish the well-formedness invariants"

section \<open>Options\<close>

text \<open>\<open>x ?? d\<close> of the source on an optional field.\<close>

definition or_default :: "'a option \<Rightarrow> 'a \<Rightarrow> 'a" where
  "or_default x d = (case x of None \<Rightarrow> d | Some v \<Rightarrow> v)"

lemma or_default_simps [simp]:
  "or_default None d = d"
  "or_default (Some v) d = v"
  by (simp_all add: or_default_def)

section \<open>Sums of integer lists\<close>

lemma sum_list_floor_le:
  fixes f :: "'a \<Rightarrow> 'b::floor_ceiling"
  shows "sum_list (map (\<lambda>x. \<lfloor>f x\<rfloor>) xs) \<le> \<lfloor>sum_list (map f xs)\<rfloor>"
proof (induction xs)
  case Nil
  then show ?case by simp
next
  case (Cons x xs)
  have "\<lfloor>f x\<rfloor> + sum_list (map (\<lambda>x. \<lfloor>f x\<rfloor>) xs) \<le> \<lfloor>f x\<rfloor> + \<lfloor>sum_list (map f xs)\<rfloor>"
    using Cons.IH by simp
  also have "\<dots> \<le> \<lfloor>f x + sum_list (map f xs)\<rfloor>"
    by (rule le_floor_add)
  finally show ?case by simp
qed

text \<open>Evaluating \<open>Math.floor\<close> of a quotient of literals.\<close>

lemma floor_numeral_divide [simp]:
  "\<lfloor>(numeral a :: 'a::floor_ceiling) / numeral b\<rfloor> = numeral a div numeral b"
  using floor_divide_of_int_eq [of "numeral a" "numeral b", where 'a = 'a] by simp

lemma sum_list_nonneg_int [simp]:
  "(\<forall>x \<in> set xs. (0::int) \<le> x) \<Longrightarrow> 0 \<le> sum_list xs"
  by (induction xs) auto

lemma sum_list_update_int:
  "i < length xs \<Longrightarrow> sum_list (xs[i := v]) = sum_list xs - xs ! i + (v::int)"
proof (induction xs arbitrary: i)
  case Nil
  then show ?case by simp
next
  case (Cons x xs)
  then show ?case by (cases i) auto
qed

lemma sum_list_map_upt_split:
  "a \<le> b \<Longrightarrow> b \<le> c \<Longrightarrow>
   sum_list (map f (filter P [a..<c])) =
   sum_list (map f (filter P [a..<b])) + sum_list (map f (filter P [b..<c]))"
  by (metis filter_append map_append sum_list_append upt_add_eq_append le_Suc_ex)

section \<open>Lists split at the end of a run\<close>

lemma takeWhile_dropWhile_length:
  "length (takeWhile P xs) + length (dropWhile P xs) = length xs"
  by (metis length_append takeWhile_dropWhile_id)

lemma length_dropWhile_less_Suc [simp]:
  "length (dropWhile P xs) < Suc (length xs)"
  by (simp add: le_imp_less_Suc length_dropWhile_le)

lemma map_takeWhile_dropWhile:
  "map f (takeWhile P xs) @ map f (dropWhile P xs) = map f xs"
  by (metis map_append takeWhile_dropWhile_id)

lemma min_length_eq_0 [simp]:
  "min (length xs) (length ys) = 0 \<longleftrightarrow> xs = [] \<or> ys = []"
  by (auto simp: min_def)

lemma take_min_length: "take (min (length xs) (length ys)) ys = take (length xs) ys"
  by (simp add: min_def)

lemma all_nonneg_update:
  "\<forall>x \<in> set xs. (0::int) \<le> x \<Longrightarrow> 0 \<le> v \<Longrightarrow> \<forall>x \<in> set (xs[i := v]). 0 \<le> x"
  by (auto dest: set_update_subset_insert [THEN subsetD])

lemma mset_takeWhile_dropWhile:
  "mset (takeWhile P xs) + mset (dropWhile P xs) = mset xs"
  by (metis mset_append takeWhile_dropWhile_id)

section \<open>Association lists\<close>

text \<open>Every entry of an updated association list is the new entry or an old one.\<close>

lemma set_alist_update:
  "kt \<in> set (AList.update k v al) \<Longrightarrow> kt = (k, v) \<or> kt \<in> set al"
  by (induction al) (auto split: if_splits)

lemma set_alist_update_distinct:
  "distinct (map fst al) \<Longrightarrow> set (AList.update k v al) = insert (k, v) {kv \<in> set al. fst kv \<noteq> k}"
  by (induction al) (auto simp: image_iff)

lemma set_alist_delete_eq: "set (AList.delete k al) = {kv \<in> set al. fst kv \<noteq> k}"
  by (induction al) auto

lemma set_alist_delete: "kt \<in> set (AList.delete k al) \<Longrightarrow> kt \<in> set al \<and> fst kt \<noteq> k"
  by (induction al) (auto split: if_splits)

text \<open>A JavaScript \<open>Map\<close> filled by \<open>set\<close> in a loop: \<open>AList.update\<close> keeps the place of
  a present key, replaces its value, and appends a new key at the end.\<close>

lemma map_of_fold_update:
  "map_of (fold (\<lambda>(k, v) acc. AList.update k v acc) kvs acc) = map_of acc ++ map_of (rev kvs)"
proof (induction kvs arbitrary: acc)
  case Nil
  then show ?case by simp
next
  case (Cons kv kvs)
  obtain k v where kv: "kv = (k, v)" by (cases kv)
  have "map_of (fold (\<lambda>(k, v) acc. AList.update k v acc) (kv # kvs) acc) =
        (map_of acc)(k \<mapsto> v) ++ map_of (rev kvs)"
    using Cons.IH by (simp add: kv update_conv' fun_upd_def)
  also have "\<dots> = map_of acc ++ map_of (rev (kv # kvs))"
    by (rule ext) (simp add: kv map_add_def split: option.splits)
  finally show ?case .
qed

lemma distinct_fold_update:
  "distinct (map fst acc) \<Longrightarrow> distinct (map fst (fold (\<lambda>(k, v) acc. AList.update k v acc) kvs acc))"
proof (induction kvs arbitrary: acc)
  case Nil
  then show ?case by simp
next
  case (Cons kv kvs)
  then show ?case by (cases kv) (simp add: distinct_update)
qed

lemma set_fold_update:
  "kv \<in> set (fold (\<lambda>(k, v) acc. AList.update k v acc) kvs acc) \<Longrightarrow> kv \<in> set acc \<or> kv \<in> set kvs"
proof (induction kvs arbitrary: acc)
  case Nil
  then show ?case by simp
next
  case (Cons kv' kvs)
  obtain k v where kv: "kv' = (k, v)" by (cases kv')
  from Cons.prems have "kv \<in> set (AList.update k v acc) \<or> kv \<in> set kvs"
    using Cons.IH by (simp add: kv)
  then show ?case using set_alist_update [of kv k v acc] kv by auto
qed

lemma update_fresh: "k \<notin> fst ` set acc \<Longrightarrow> AList.update k v acc = acc @ [(k, v)]"
  by (induction acc) auto

lemma fold_update_fresh:
  "distinct (map fst kvs) \<Longrightarrow> fst ` set kvs \<inter> fst ` set acc = {} \<Longrightarrow>
   fold (\<lambda>(k, v) acc. AList.update k v acc) kvs acc = acc @ kvs"
proof (induction kvs arbitrary: acc)
  case Nil
  then show ?case by simp
next
  case (Cons kv kvs)
  obtain k v where kv: "kv = (k, v)" by (cases kv)
  have "AList.update k v acc = acc @ [(k, v)]" using Cons.prems(2) kv by (intro update_fresh) auto
  moreover have "fst ` set kvs \<inter> fst ` set (acc @ [(k, v)]) = {}"
    using Cons.prems kv by auto
  ultimately show ?case using Cons.IH [of "acc @ [(k, v)]"] Cons.prems(1) kv by simp
qed

section \<open>Searching lists\<close>

text \<open>What \<open>Array.prototype.find\<close> returns is an element that satisfies the predicate.\<close>

lemma find_Some_set: "find P xs = Some x \<Longrightarrow> x \<in> set xs \<and> P x"
  by (induction xs) (auto split: if_splits)

lemma find_append: "find P (xs @ ys) = (case find P xs of None \<Rightarrow> find P ys | Some x \<Rightarrow> Some x)"
  by (induction xs) auto

end
