(* ===== verification/MatchState.thy ===== *)
theory MatchState
  imports Prelude
begin

text \<open>
  The match document of src/backend/src/state/match.interface.ts: a player of a match
  (\<open>MatchPlayer\<close>), the status of a match and the match itself (\<open>InternalMatch\<close>).
  Optional fields of the TypeScript interfaces (\<open>wordScore?\<close>, \<open>deadlineAt?\<close>,
  \<open>submittedAt?\<close>, \<open>rank?\<close>, \<open>winnings?\<close>, \<open>payoutAt?\<close>) are \<open>option\<close>s, the
  nullable ones (\<open>startedAt\<close>, \<open>endedAt\<close>) too. The board is a grid of letter tokens,
  row by row. The field \<open>id\<close> is renamed \<open>player_id\<close> and \<open>match_id\<close>, since \<open>id\<close>
  is a constant of HOL.
\<close>

type_synonym board = "string list list"

record player =
  player_id :: user_id
  name :: string
  words :: "string list"
  score :: int
  wordScore :: "int option"
  timeBonus :: "int option"
  joinedAt :: ms
  deadlineAt :: "ms option"
  paidEntry :: bool
  submittedAt :: "ms option"
  rank :: "nat option"
  winnings :: "int option"

datatype status = Waiting | Started | Completed

record internal_match =
  match_id :: match_id
  lobbyType :: lobby_type
  match_board :: board
  createdAt :: ms
  startedAt :: "ms option"
  endedAt :: "ms option"
  entryFee :: int
  prizePool :: int
  gameDuration :: nat
  players :: "player list"
  status :: status
  autoCompleteAt :: ms
  payoutAt :: "ms option"

text \<open>A player as \<open>POST /matches/join\<close> seats it (matches.ts, lines 203-211 and 235-246):
  no words, score 0, its own deadline, and whether the entry fee was captured.\<close>

definition new_player :: "user_id \<Rightarrow> string \<Rightarrow> ms \<Rightarrow> ms \<Rightarrow> bool \<Rightarrow> player" where
  "new_player u playerName nowMs deadline paid =
     \<lparr>player_id = u, name = playerName, words = [], score = 0, wordScore = None,
      timeBonus = None, joinedAt = nowMs, deadlineAt = Some deadline, paidEntry = paid,
      submittedAt = None, rank = None, winnings = None\<rparr>"

text \<open>\<open>m.players.find((p) => p.id === userId)\<close>.\<close>

definition find_player :: "internal_match \<Rightarrow> user_id \<Rightarrow> player option" where
  "find_player m u = find (\<lambda>p. player_id p = u) (players m)"

text \<open>A player's absolute deadline, read as the request and sweep paths read it:
  \<open>deadlineAt\<close> when present, otherwise join time plus the match duration.\<close>

definition player_deadline :: "internal_match \<Rightarrow> player \<Rightarrow> ms" where
  "player_deadline m p =
     (case deadlineAt p of Some d \<Rightarrow> d | None \<Rightarrow> joinedAt p + gameDuration m * 1000)"

text \<open>A player's final winnings as the settlement code reads them: \<open>p.winnings || 0\<close>.\<close>

definition winnings_of :: "player \<Rightarrow> int" where
  "winnings_of p = or_default (winnings p) 0"

text \<open>The player with the fields the allocator writes cleared.\<close>

definition strip :: "player \<Rightarrow> player" where
  "strip p = p\<lparr>rank := None, winnings := None\<rparr>"

lemma find_player_Some:
  "find_player m u = Some p \<Longrightarrow> p \<in> set (players m) \<and> player_id p = u"
  by (auto simp: find_player_def find_Some_iff)

lemma find_player_None:
  "find_player m u = None \<longleftrightarrow> (\<forall>p \<in> set (players m). player_id p \<noteq> u)"
  by (auto simp: find_player_def find_None_iff)

lemma strip_idem [simp]: "strip (strip p) = strip p"
  by (simp add: strip_def)

lemma strip_update [simp]:
  "strip (p\<lparr>rank := r, winnings := w\<rparr>) = strip p"
  by (simp add: strip_def)

lemma score_strip [simp]: "score (strip p) = score p"
  by (simp add: strip_def)

end
