(* ===== verification/Payout.thy ===== *)
theory Payout
  imports MatchState
begin

text \<open>
  The payout allocator of src/backend/src/utils/payout.ts, \<open>rankAndAllocateWinnings\<close>:
  players sorted by score, descending (JavaScript's \<open>Array.prototype.sort\<close> is stable,
  as \<open>sort_key\<close> is), per-rank base amounts proportional to the payout multipliers with
  the rounding remainder given to first place, and tie bands that pool the base amounts
  of the ranks they cover and split them evenly, the integer remainder going one unit
  at a time to the earliest players of the band.

  Multipliers are JavaScript numbers (\<open>[3, 1.5, 0.5]\<close>); the model reads them as exact
  rationals, so \<open>Math.floor(pool * w / sum)\<close> is the floor of an exact quotient. Prize
  pools and scores are integers.
\<close>

section \<open>Definitions\<close>

text \<open>\<open>clampToNonNegativeInt\<close>, payout.ts lines 7-10.\<close>

definition clampToNonNegativeInt :: "rat \<Rightarrow> int" where
  "clampToNonNegativeInt value = (let v = \<lfloor>value\<rfloor> in if v < 0 then 0 else v)"

text \<open>\<open>players.slice().sort((a, b) => b.score - a.score)\<close>, line 31-33.\<close>

definition score_order :: "player list \<Rightarrow> player list" where
  "score_order ps = sort_key (\<lambda>p. - score p) ps"

text \<open>The base amount of each paid rank, lines 59-78: the weights are the first \<open>n\<close>
  multipliers with negatives replaced by 0 (done by the caller below).\<close>

definition base_rank_amounts :: "int \<Rightarrow> rat list \<Rightarrow> int list" where
  "base_rank_amounts totalPrizeGems weights =
     (let n = length weights; weightSum = sum_list weights in
      if 0 < weightSum then
        (let amts = map (\<lambda>w. clampToNonNegativeInt (of_int totalPrizeGems * w / weightSum)) weights;
             distributed = sum_list amts;
             remainder = totalPrizeGems - distributed
         in if 0 < remainder then amts[0 := amts ! 0 + remainder] else amts)
      else replicate n 0)"

text \<open>The sum of the base amounts of the ranks \<open>groupStartRank..groupEndRank\<close> that lie
  in \<open>1..n\<close>, lines 91-94.\<close>

definition band_total :: "nat \<Rightarrow> int list \<Rightarrow> nat \<Rightarrow> nat \<Rightarrow> int" where
  "band_total n baseRankAmounts groupStartRank groupEndRank =
     sum_list (map (\<lambda>r. baseRankAmounts ! (r - 1))
       (filter (\<lambda>r. 1 \<le> r \<and> r \<le> n) [groupStartRank..<Suc groupEndRank]))"

text \<open>The loop of lines 105-114 over the players of a band: each gets \<open>per\<close>, plus one
  while the remainder \<open>rem\<close> lasts.\<close>

fun deal :: "nat \<Rightarrow> int \<Rightarrow> int \<Rightarrow> player list \<Rightarrow> player list" where
  "deal r per rem [] = []"
| "deal r per rem (q # qs) =
     (let bonus = (if 0 < rem then 1 else 0)
      in q\<lparr>rank := Some r, winnings := Some (per + bonus)\<rparr>
         # deal r per (if 0 < rem then rem - 1 else rem) qs)"

text \<open>One band, lines 96-115.\<close>

definition pay_band :: "nat \<Rightarrow> int \<Rightarrow> player list \<Rightarrow> player list" where
  "pay_band groupStartRank groupTotal grp =
     (if groupTotal \<le> 0
      then map (\<lambda>q. q\<lparr>rank := Some groupStartRank, winnings := Some 0\<rparr>) grp
      else
        (let groupSize = int (length grp);
             per = groupTotal div groupSize;
             rem = groupTotal - per * groupSize
         in deal groupStartRank per rem grp))"

text \<open>The walk over the tie bands, lines 81-118. The argument \<open>i\<close> is the 0-based
  position of the band's first player; the band is that player and the run of players
  after it with the same score (\<open>ordered[j + 1].score === groupScore\<close>).\<close>

fun allocate_bands :: "nat \<Rightarrow> int list \<Rightarrow> nat \<Rightarrow> player list \<Rightarrow> player list" where
  "allocate_bands n base i [] = []"
| "allocate_bands n base i (p # ps) =
     (let grp = p # takeWhile (\<lambda>q. score q = score p) ps;
          rest = dropWhile (\<lambda>q. score q = score p) ps;
          groupStartRank = i + 1;
          groupEndRank = i + length grp
      in pay_band groupStartRank (band_total n base groupStartRank groupEndRank) grp
         @ allocate_bands n base groupEndRank rest)"

text \<open>The same walk in the branch without a prize (lines 39-56): ranks only, winnings 0.\<close>

fun rank_bands :: "nat \<Rightarrow> player list \<Rightarrow> player list" where
  "rank_bands i [] = []"
| "rank_bands i (p # ps) =
     (let grp = p # takeWhile (\<lambda>q. score q = score p) ps;
          rest = dropWhile (\<lambda>q. score q = score p) ps
      in map (\<lambda>q. q\<lparr>rank := Some (i + 1), winnings := Some 0\<rparr>) grp
         @ rank_bands (i + length grp) rest)"

text \<open>\<open>rankAndAllocateWinnings\<close>, lines 26-124.\<close>

definition rankAndAllocateWinnings :: "player list \<Rightarrow> int \<Rightarrow> rat list \<Rightarrow> player list" where
  "rankAndAllocateWinnings ps totalPrizeGems multipliers =
     (let ordered = score_order ps;
          n = min (length ordered) (length multipliers)
      in if totalPrizeGems \<le> 0 \<or> n = 0 then rank_bands 0 ordered
         else
           (let weights = map (\<lambda>w. max 0 w) (take n multipliers)
            in allocate_bands n (base_rank_amounts totalPrizeGems weights) 0 ordered))"

section \<open>Lemmas\<close>

lemma strip_deal: "map strip (deal r per rem qs) = map strip qs"
  by (induction r per rem qs rule: deal.induct) (simp_all add: Let_def)

lemma sum_deal:
  "0 \<le> rem \<Longrightarrow> rem \<le> int (length qs) \<Longrightarrow>
   sum_list (map winnings_of (deal r per rem qs)) = per * int (length qs) + rem"
proof (induction r per rem qs rule: deal.induct)
  case (1 r per rem)
  then show ?case by simp
next
  case (2 r per rem q qs)
  then show ?case by (auto simp: Let_def winnings_of_def algebra_simps)
qed

lemma deal_member:
  "q \<in> set (deal r per rem qs) \<Longrightarrow>
   rank q = Some r \<and> (winnings q = Some per \<or> winnings q = Some (per + 1))"
  by (induction r per rem qs rule: deal.induct) (auto simp: Let_def split: if_splits)

lemma strip_pay_band: "map strip (pay_band s t grp) = map strip grp"
  by (simp add: pay_band_def Let_def strip_deal comp_def)

lemma sum_pay_band:
  "0 \<le> t \<Longrightarrow> grp \<noteq> [] \<Longrightarrow> sum_list (map winnings_of (pay_band s t grp)) = t"
proof (cases "t \<le> 0")
  case True
  assume "0 \<le> t"
  with True show ?thesis by (simp add: pay_band_def winnings_of_def comp_def)
next
  case False
  assume ne: "grp \<noteq> []"
  let ?k = "int (length grp)"
  have k: "0 < ?k" using ne by simp
  have "t - t div ?k * ?k = t mod ?k" by (simp add: minus_div_mult_eq_mod)
  moreover have "0 \<le> t mod ?k" "t mod ?k \<le> ?k" using k by (simp_all add: order_less_imp_le)
  ultimately show ?thesis using False
    by (simp add: pay_band_def Let_def sum_deal)
qed

lemma band_total_split:
  "s \<le> Suc m \<Longrightarrow> m \<le> e \<Longrightarrow> band_total n b s e = band_total n b s m + band_total n b (Suc m) e"
  unfolding band_total_def by (rule sum_list_map_upt_split) simp_all

lemma band_total_empty [simp]: "band_total n b (Suc i) i = 0"
  by (simp add: band_total_def)

lemma band_total_nonneg:
  "\<forall>x \<in> set b. 0 \<le> x \<Longrightarrow> n \<le> length b \<Longrightarrow> 0 \<le> band_total n b s e"
  unfolding band_total_def
  by (rule sum_list_nonneg_int) auto

lemma band_total_all:
  "n = length b \<Longrightarrow> n \<le> e \<Longrightarrow> band_total n b 1 e = sum_list b"
proof -
  assume n: "n = length b" and e: "n \<le> e"
  have "filter (\<lambda>r. 1 \<le> r \<and> r \<le> n) [1..<Suc e] = [1..<Suc n]"
    using e by (induction e) auto
  moreover have "[1..<Suc n] = map Suc [0..<n]" by (simp add: map_Suc_upt)
  then have "map (\<lambda>r. b ! (r - 1)) [1..<Suc n] = map (\<lambda>i. b ! i) [0..<n]" by simp
  then have "map (\<lambda>r. b ! (r - 1)) [1..<Suc n] = b" using n by (simp add: map_nth)
  ultimately show ?thesis by (simp add: band_total_def)
qed

lemma strip_allocate_bands: "map strip (allocate_bands n b i ps) = map strip ps"
proof (induction n b i ps rule: allocate_bands.induct)
  case (1 n base i)
  then show ?case by simp
next
  case (2 n base i p ps)
  then show ?case
    by (simp add: Let_def strip_pay_band map_takeWhile_dropWhile)
qed

lemma sum_allocate_bands:
  "\<forall>x \<in> set b. 0 \<le> x \<Longrightarrow> n \<le> length b \<Longrightarrow>
   sum_list (map winnings_of (allocate_bands n b i ps)) = band_total n b (Suc i) (i + length ps)"
proof (induction n b i ps rule: allocate_bands.induct)
  case (1 n base i)
  then show ?case by simp
next
  case (2 n base i p ps)
  let ?P = "\<lambda>q. score q = score p"
  let ?k = "Suc (length (takeWhile ?P ps))"
  let ?c = "length (dropWhile ?P ps)"
  have eq: "i + length (p # ps) = i + ?k + ?c"
    by (simp add: takeWhile_dropWhile_length[of ?P ps, symmetric])
  have split: "band_total n base (Suc i) (i + ?k + ?c) =
        band_total n base (Suc i) (i + ?k) + band_total n base (Suc (i + ?k)) (i + ?k + ?c)"
    by (rule band_total_split) simp_all
  show ?case
    unfolding eq split using 2
    by (simp add: Let_def sum_pay_band band_total_nonneg del: takeWhile.simps)
qed

lemma clamp_nonneg_floor:
  "0 \<le> v \<Longrightarrow> clampToNonNegativeInt v = \<lfloor>v\<rfloor>"
  by (simp add: clampToNonNegativeInt_def Let_def)

lemma clamp_nonneg [simp]: "0 \<le> clampToNonNegativeInt v"
  by (simp add: clampToNonNegativeInt_def Let_def)

lemma length_base_rank_amounts [simp]:
  "length (base_rank_amounts pool ws) = length ws"
  by (simp add: base_rank_amounts_def Let_def)

lemma base_rank_amounts_nonneg:
  "\<forall>x \<in> set (base_rank_amounts pool ws). 0 \<le> x"
proof (cases "0 < sum_list ws")
  case False
  then show ?thesis by (simp add: base_rank_amounts_def)
next
  case True
  define amts where "amts = map (\<lambda>w. clampToNonNegativeInt (of_int pool * w / sum_list ws)) ws"
  have a: "\<forall>x \<in> set amts. 0 \<le> x" by (auto simp: amts_def)
  have len: "0 < length amts" using True by (cases ws) (auto simp: amts_def)
  then have a0: "0 \<le> amts ! 0" using a nth_mem by blast
  have unf: "base_rank_amounts pool ws =
     (if 0 < pool - sum_list amts then amts[0 := amts ! 0 + (pool - sum_list amts)] else amts)"
    using True by (simp add: base_rank_amounts_def Let_def amts_def)
  show ?thesis
  proof (cases "0 < pool - sum_list amts")
    case True
    with a0 have "0 \<le> amts ! 0 + (pool - sum_list amts)" by simp
    from all_nonneg_update [OF a this] True show ?thesis by (simp add: unf)
  next
    case False
    with a show ?thesis by (simp add: unf)
  qed
qed

lemma sum_base_rank_amounts:
  assumes w: "\<forall>w \<in> set ws. 0 \<le> w" and pool: "0 < pool"
  shows "sum_list (base_rank_amounts pool ws) = (if 0 < sum_list ws then pool else 0)"
proof (cases "0 < sum_list ws")
  case False
  then show ?thesis by (simp add: base_rank_amounts_def sum_list_replicate)
next
  case True
  define S where "S = sum_list ws"
  define amts where "amts = map (\<lambda>w. clampToNonNegativeInt (of_int pool * w / S)) ws"
  have S: "0 < S" using True by (simp add: S_def)
  have amts_floor: "amts = map (\<lambda>w. \<lfloor>of_int pool * w / S\<rfloor>) ws"
    unfolding amts_def using w S pool by (auto intro!: clamp_nonneg_floor)
  have pt: "\<And>w. of_int pool * w / S = w * (of_int pool / S)" by (simp add: mult.commute)
  have "sum_list (map (\<lambda>w. of_int pool * w / S) ws) = sum_list ws * (of_int pool / S)"
    by (simp only: pt sum_list_mult_const map_ident)
  then have total: "sum_list (map (\<lambda>w. of_int pool * w / S) ws) = of_int pool"
    using S by (simp add: S_def)
  have le: "sum_list amts \<le> pool"
    using sum_list_floor_le [of "\<lambda>w. of_int pool * w / S" ws] total
    by (simp add: amts_floor)
  have len: "0 < length amts" using True by (cases ws) (auto simp: amts_def)
  have unf: "base_rank_amounts pool ws =
     (if 0 < pool - sum_list amts then amts[0 := amts ! 0 + (pool - sum_list amts)] else amts)"
    using True by (simp add: base_rank_amounts_def Let_def S_def amts_def)
  show ?thesis
  proof (cases "0 < pool - sum_list amts")
    case True
    with len show ?thesis using S by (simp add: unf sum_list_update_int S_def)
  next
    case False
    with le S show ?thesis by (simp add: unf S_def)
  qed
qed

lemma pay_band_rank: "q \<in> set (pay_band s t grp) \<Longrightarrow> rank q = Some s"
  by (auto simp: pay_band_def Let_def dest: deal_member split: if_splits)

lemma pay_band_close:
  "q1 \<in> set (pay_band s t grp) \<Longrightarrow> q2 \<in> set (pay_band s t grp) \<Longrightarrow>
   \<bar>winnings_of q1 - winnings_of q2\<bar> \<le> 1"
  by (auto simp: pay_band_def Let_def winnings_of_def dest!: deal_member split: if_splits)

lemma pay_band_nonneg:
  "0 \<le> t \<Longrightarrow> q \<in> set (pay_band s t grp) \<Longrightarrow> 0 \<le> winnings_of q"
  by (auto simp: pay_band_def Let_def winnings_of_def div_int_pos_iff dest!: deal_member split: if_splits)

lemma strip_member_score:
  "map strip ys = map strip xs \<Longrightarrow> q \<in> set ys \<Longrightarrow> \<exists>x \<in> set xs. score x = score q"
  by (metis (no_types, lifting) imageE image_eqI list.set_map score_strip)

text \<open>The rank-only loop is the allocating loop with no paid rank.\<close>

lemma rank_bands_allocate_bands: "rank_bands i ps = allocate_bands 0 [] i ps"
proof (induction i ps rule: rank_bands.induct)
  case (1 i)
  then show ?case by simp
next
  case (2 i p ps)
  then show ?case by (simp add: Let_def pay_band_def band_total_def)
qed

abbreviation score_desc :: "player list \<Rightarrow> bool" where
  "score_desc ps \<equiv> sorted_wrt (\<lambda>a b. score b \<le> score a) ps"

lemma score_desc_score_order: "score_desc (score_order ps)"
proof -
  have "sorted (map (\<lambda>p. - score p) (sort_key (\<lambda>p. - score p) ps))" by (rule sorted_sort_key)
  then show ?thesis by (simp add: score_order_def sorted_map)
qed

lemma score_desc_dropWhile:
  "score_desc ps \<Longrightarrow> score_desc (dropWhile P ps)"
  by (metis sorted_wrt_append takeWhile_dropWhile_id)

lemma dropWhile_score_less:
  "score_desc (p # ps) \<Longrightarrow> x \<in> set (dropWhile (\<lambda>q. score q = score p) ps) \<Longrightarrow> score x < score p"
proof (induction ps)
  case Nil
  then show ?case by simp
next
  case (Cons y ys)
  then show ?case by (fastforce split: if_splits)
qed

lemma takeWhile_score_eq:
  "x \<in> set (takeWhile (\<lambda>q. score q = s) ps) \<Longrightarrow> score x = s"
  by (auto dest: set_takeWhileD)

lemma rank_allocate_bands:
  "score_desc ps \<Longrightarrow> q \<in> set (allocate_bands n b i ps) \<Longrightarrow>
   rank q = Some (Suc (i + length (filter (\<lambda>x. score q < score x) ps)))"
proof (induction n b i ps rule: allocate_bands.induct)
  case (1 n base i)
  then show ?case by simp
next
  case (2 n base i p ps)
  let ?P = "\<lambda>q. score q = score p"
  let ?grp = "p # takeWhile ?P ps" and ?rest = "dropWhile ?P ps"
  have split: "p # ps = ?grp @ ?rest" by simp
  show ?case
  proof (cases "q \<in> set (allocate_bands n base (i + length ?grp) ?rest)")
    case True
    have IH: "rank q = Some (Suc (i + length ?grp + length (filter (\<lambda>x. score q < score x) ?rest)))"
      using "2.IH" [OF refl refl refl refl] score_desc_dropWhile "2.prems"(1) True by simp
    obtain y where y: "y \<in> set ?rest" "score y = score q"
      using strip_member_score [OF strip_allocate_bands True] by blast
    have "score q < score p" using dropWhile_score_less [OF "2.prems"(1) y(1)] y(2) by simp
    then have grp: "filter (\<lambda>x. score q < score x) ?grp = ?grp"
      by (auto simp: filter_id_conv dest: takeWhile_score_eq)
    have "length (filter (\<lambda>x. score q < score x) (p # ps)) =
          length (filter (\<lambda>x. score q < score x) (?grp @ ?rest))"
      by (simp only: split)
    also have "\<dots> = length ?grp + length (filter (\<lambda>x. score q < score x) ?rest)"
      by (simp only: filter_append length_append grp)
    finally have "length (filter (\<lambda>x. score q < score x) (p # ps)) =
          length ?grp + length (filter (\<lambda>x. score q < score x) ?rest)" .
    with IH show ?thesis by simp
  next
    case False
    with "2.prems"(2) have q: "q \<in> set (pay_band (Suc i) (band_total n base (Suc i) (i + length ?grp)) ?grp)"
      by (simp add: Let_def)
    obtain y where y: "y \<in> set ?grp" "score y = score q"
      using strip_member_score [OF strip_pay_band q] by blast
    then have "score q = score p" by (auto dest: takeWhile_score_eq)
    moreover have "\<forall>x \<in> set ps. score x \<le> score p" using "2.prems"(1) by simp
    ultimately have "filter (\<lambda>x. score q < score x) (p # ps) = []" by (auto simp: filter_empty_conv)
    with pay_band_rank [OF q] show ?thesis by simp
  qed
qed

lemma band_member_score:
  "q \<in> set (pay_band s t (p # takeWhile (\<lambda>q. score q = score p) ps)) \<Longrightarrow> score q = score p"
  using strip_member_score [OF strip_pay_band] by (fastforce dest: takeWhile_score_eq)

lemma rest_member_score:
  "score_desc (p # ps) \<Longrightarrow> q \<in> set (allocate_bands n b j (dropWhile (\<lambda>q. score q = score p) ps)) \<Longrightarrow>
   score q < score p"
  using strip_member_score [OF strip_allocate_bands] dropWhile_score_less by metis

lemma close_allocate_bands:
  "score_desc ps \<Longrightarrow> q1 \<in> set (allocate_bands n b i ps) \<Longrightarrow> q2 \<in> set (allocate_bands n b i ps) \<Longrightarrow>
   score q1 = score q2 \<Longrightarrow> \<bar>winnings_of q1 - winnings_of q2\<bar> \<le> 1"
proof (induction n b i ps rule: allocate_bands.induct)
  case (1 n base i)
  then show ?case by simp
next
  case (2 n base i p ps)
  let ?grp = "p # takeWhile (\<lambda>q. score q = score p) ps"
  let ?rest = "dropWhile (\<lambda>q. score q = score p) ps"
  let ?band = "pay_band (Suc i) (band_total n base (Suc i) (i + length ?grp)) ?grp"
  have B: "\<And>q. q \<in> set ?band \<Longrightarrow> score q = score p"
    by (rule band_member_score)
  have R: "\<And>q. q \<in> set (allocate_bands n base (i + length ?grp) ?rest) \<Longrightarrow> score q < score p"
    by (rule rest_member_score [OF "2.prems"(1)])
  have sd: "score_desc ?rest" using "2.prems"(1) by (simp add: score_desc_dropWhile)
  have m: "\<And>q. q \<in> set (allocate_bands n base i (p # ps)) \<Longrightarrow>
     q \<in> set ?band \<or> q \<in> set (allocate_bands n base (i + length ?grp) ?rest)"
    by (simp add: Let_def)
  show ?case
  proof (cases "q1 \<in> set ?band")
    case True
    then have s1: "score q1 = score p" by (rule B)
    have "q2 \<in> set ?band"
    proof (rule ccontr)
      assume "q2 \<notin> set ?band"
      then have "q2 \<in> set (allocate_bands n base (i + length ?grp) ?rest)"
        using m [OF "2.prems"(3)] by blast
      then have "score q2 < score p" by (rule R)
      with s1 "2.prems"(4) show False by simp
    qed
    with True show ?thesis by (rule pay_band_close)
  next
    case False
    then have q1: "q1 \<in> set (allocate_bands n base (i + length ?grp) ?rest)"
      using m [OF "2.prems"(2)] by blast
    then have s1: "score q1 < score p" by (rule R)
    have "q2 \<notin> set ?band"
    proof
      assume "q2 \<in> set ?band"
      then have "score q2 = score p" by (rule B)
      with s1 "2.prems"(4) show False by simp
    qed
    then have "q2 \<in> set (allocate_bands n base (i + length ?grp) ?rest)"
      using m [OF "2.prems"(3)] by blast
    with q1 show ?thesis using "2.IH" [OF refl refl refl refl sd] "2.prems"(4) by blast
  qed
qed

lemma nonneg_allocate_bands:
  "\<forall>x \<in> set b. 0 \<le> x \<Longrightarrow> n \<le> length b \<Longrightarrow> q \<in> set (allocate_bands n b i ps) \<Longrightarrow> 0 \<le> winnings_of q"
  by (induction n b i ps rule: allocate_bands.induct)
     (auto simp: Let_def dest: pay_band_nonneg [OF band_total_nonneg])

lemma rankAndAllocateWinnings_bands:
  "\<exists>n b. (\<forall>x \<in> set b. 0 \<le> x) \<and> n \<le> length b \<and>
     rankAndAllocateWinnings ps pool ms = allocate_bands n b 0 (score_order ps)"
proof (cases "pool \<le> 0 \<or> min (length (score_order ps)) (length ms) = 0")
  case True
  then show ?thesis
    by (intro exI [of _ 0] exI [of _ "[]"])
       (simp add: rankAndAllocateWinnings_def Let_def rank_bands_allocate_bands)
next
  case False
  let ?n = "min (length (score_order ps)) (length ms)"
  show ?thesis using False
    by (intro exI [of _ ?n] exI [of _ "base_rank_amounts pool (map (max 0) (take ?n ms))"])
       (simp add: rankAndAllocateWinnings_def Let_def base_rank_amounts_nonneg)
qed

lemma length_filter_score_order:
  "length (filter P (score_order ps)) = length (filter P ps)"
  by (metis mset_filter mset_sort score_order_def size_mset)

lemma sum_rank_bands: "sum_list (map winnings_of (rank_bands i ps)) = 0"
  by (induction i ps rule: rank_bands.induct) (simp_all add: Let_def winnings_of_def comp_def)

text \<open>The sum of the winnings, for the total below and for the reconciliation of
  theory \<open>DevTools\<close>.\<close>

lemma allocated_total:
  "sum_list (map winnings_of (rankAndAllocateWinnings ps pool ms)) =
   (if 0 < pool \<and> ps \<noteq> [] \<and> ms \<noteq> [] \<and> 0 < sum_list (map (max 0) (take (length ps) ms))
    then pool else 0)"
proof (cases "pool \<le> 0 \<or> min (length ps) (length ms) = 0")
  case True
  then show ?thesis
    by (auto simp: rankAndAllocateWinnings_def Let_def score_order_def sum_rank_bands)
next
  case False
  let ?n = "min (length ps) (length ms)"
  let ?ws = "map (max 0) (take ?n ms)"
  have ws: "\<forall>w \<in> set ?ws. 0 \<le> w" by auto
  have n: "?n = length (base_rank_amounts pool ?ws)" by simp
  have "sum_list (map winnings_of (rankAndAllocateWinnings ps pool ms)) =
        sum_list (map winnings_of (allocate_bands ?n (base_rank_amounts pool ?ws) 0 (score_order ps)))"
    using False by (simp add: rankAndAllocateWinnings_def Let_def score_order_def)
  also have "\<dots> = band_total ?n (base_rank_amounts pool ?ws) 1 (length ps)"
    by (simp add: sum_allocate_bands base_rank_amounts_nonneg score_order_def)
  also have "\<dots> = sum_list (base_rank_amounts pool ?ws)"
    by (rule band_total_all) simp_all
  also have "\<dots> = (if 0 < sum_list ?ws then pool else 0)"
    using False by (simp add: sum_base_rank_amounts)
  finally show ?thesis using False by (simp add: take_min_length)
qed

text \<open>C6: the allocator pays out exactly the prize pool when the pool is positive and some paid rank has a positive weight, and nothing otherwise; in particular the winnings never exceed the pool.\<close>

theorem rankAndAllocateWinnings_total:
  "sum_list (map winnings_of (rankAndAllocateWinnings ps pool ms)) =
   (if 0 < pool \<and> ps \<noteq> [] \<and> ms \<noteq> [] \<and> 0 < sum_list (map (max 0) (take (length ps) ms))
    then pool else 0)"
  by (rule allocated_total)

lemma rankAndAllocateWinnings_obtain:
  obtains n b where "\<forall>x \<in> set b. 0 \<le> x" "n \<le> length b"
    "rankAndAllocateWinnings ps pool ms = allocate_bands n b 0 (score_order ps)"
  using rankAndAllocateWinnings_bands by blast

text \<open>C25: every player is reported with the standard competition rank, one more than the number of players with a strictly higher score.\<close>

theorem rankAndAllocateWinnings_rank:
  assumes "q \<in> set (rankAndAllocateWinnings ps pool ms)"
  shows "rank q = Some (Suc (length (filter (\<lambda>x. score q < score x) ps)))"
proof -
  obtain n b where R: "rankAndAllocateWinnings ps pool ms = allocate_bands n b 0 (score_order ps)"
    by (rule rankAndAllocateWinnings_obtain)
  from assms have "q \<in> set (allocate_bands n b 0 (score_order ps))" by (simp add: R)
  then have "rank q = Some (Suc (0 + length (filter (\<lambda>x. score q < score x) (score_order ps))))"
    by (rule rank_allocate_bands [OF score_desc_score_order])
  then show ?thesis by (simp add: length_filter_score_order)
qed

text \<open>C24: players with equal scores get the same rank and winnings that differ by at most one unit.\<close>

theorem rankAndAllocateWinnings_ties:
  assumes q1: "q1 \<in> set (rankAndAllocateWinnings ps pool ms)"
    and q2: "q2 \<in> set (rankAndAllocateWinnings ps pool ms)"
    and eq: "score q1 = score q2"
  shows "rank q1 = rank q2 \<and> \<bar>winnings_of q1 - winnings_of q2\<bar> \<le> 1"
proof -
  obtain n b where R: "rankAndAllocateWinnings ps pool ms = allocate_bands n b 0 (score_order ps)"
    by (rule rankAndAllocateWinnings_obtain)
  from q1 q2 have m: "q1 \<in> set (allocate_bands n b 0 (score_order ps))"
    "q2 \<in> set (allocate_bands n b 0 (score_order ps))" by (simp_all add: R)
  have "rank q1 = rank q2"
    using rank_allocate_bands [OF score_desc_score_order m(1)]
      rank_allocate_bands [OF score_desc_score_order m(2)] eq by simp
  moreover have "\<bar>winnings_of q1 - winnings_of q2\<bar> \<le> 1"
    using m eq by (rule close_allocate_bands [OF score_desc_score_order])
  ultimately show ?thesis ..
qed

text \<open>the allocator returns the players it was given, each once, with only rank and winnings written.\<close>

theorem rankAndAllocateWinnings_perm:
  "mset (map strip (rankAndAllocateWinnings ps pool ms)) = mset (map strip ps)"
proof -
  obtain n b where R: "rankAndAllocateWinnings ps pool ms = allocate_bands n b 0 (score_order ps)"
    by (rule rankAndAllocateWinnings_obtain)
  have "mset (map strip (score_order ps)) = mset (map strip ps)"
    by (simp add: score_order_def mset_map)
  then show ?thesis by (simp add: R strip_allocate_bands)
qed

text \<open>no player is assigned negative winnings.\<close>

theorem rankAndAllocateWinnings_nonneg:
  assumes "q \<in> set (rankAndAllocateWinnings ps pool ms)"
  shows "0 \<le> winnings_of q"
proof -
  obtain n b where "\<forall>x \<in> set b. 0 \<le> x" "n \<le> length b"
    and R: "rankAndAllocateWinnings ps pool ms = allocate_bands n b 0 (score_order ps)"
    by (rule rankAndAllocateWinnings_obtain)
  with assms show ?thesis by (auto intro: nonneg_allocate_bands)
qed
section \<open>Examples\<close>

text \<open>A player with a final score, as the allocator receives it.\<close>

definition scored_player :: "user_id \<Rightarrow> int \<Rightarrow> player" where
  "scored_player u s = (new_player u u 0 0 True)\<lparr>score := s\<rparr>"

lemma score_scored_player [simp]: "score (scored_player u s) = s"
  by (simp add: scored_player_def)

lemmas payout_eval_defs = rankAndAllocateWinnings_def score_order_def base_rank_amounts_def
  clampToNonNegativeInt_def band_total_def pay_band_def scored_player_def new_player_def Let_def

text \<open>Two tied players, a pool of 501 and two equal multipliers: the base amounts are
  251 (250 plus the rounding remainder) and 250, and the band splits their sum 501.\<close>

abbreviation tie_ranking :: "player list" where
  "tie_ranking \<equiv> rankAndAllocateWinnings [scored_player ''a'' 10, scored_player ''b'' 10] 501 [1, 1]"

lemma tie_ranking_eval:
  "tie_ranking = [(scored_player ''a'' 10)\<lparr>rank := Some 1, winnings := Some 251\<rparr>,
                  (scored_player ''b'' 10)\<lparr>rank := Some 1, winnings := Some 250\<rparr>]"
  by (simp add: payout_eval_defs)

text \<open>the scenario of the specification: multipliers 3, 1.5, 0.5, a pool of
  500 and scores 90, 90, 70, 50; the two leaders share rank 1 and the allocations of ranks
  1 and 2 (300 + 150), the third gets rank 3's 50 and the fourth, beyond the paid ranks, 0.\<close>

theorem rankAndAllocateWinnings_spec_scenario:
  "rankAndAllocateWinnings
     [scored_player ''p1'' 90, scored_player ''p2'' 90, scored_player ''p3'' 70,
      scored_player ''p4'' 50] 500 [3, 3/2, 1/2] =
   [(scored_player ''p1'' 90)\<lparr>rank := Some 1, winnings := Some 225\<rparr>,
    (scored_player ''p2'' 90)\<lparr>rank := Some 1, winnings := Some 225\<rparr>,
    (scored_player ''p3'' 70)\<lparr>rank := Some 3, winnings := Some 50\<rparr>,
    (scored_player ''p4'' 50)\<lparr>rank := Some 4, winnings := Some 0\<rparr>]"
  by (simp add: payout_eval_defs)

text \<open>tied players do not always receive identical winnings: the band's
  integer remainder goes to its earliest player, so two players tied at 10 share a pool of
  501 as 251 and 250.\<close>

theorem rankAndAllocateWinnings_tied_unequal:
  "score (tie_ranking ! 0) = score (tie_ranking ! 1) \<and> rank (tie_ranking ! 0) = rank (tie_ranking ! 1) \<and>
   winnings_of (tie_ranking ! 0) = 251 \<and> winnings_of (tie_ranking ! 1) = 250"
  by (simp add: tie_ranking_eval winnings_of_def)

subsection \<open>Witnesses\<close>

theorem rankAndAllocateWinnings_rank_witness:
  "tie_ranking ! 1 \<in> set tie_ranking \<and>
   rank (tie_ranking ! 1) =
     Some (Suc (length (filter (\<lambda>x. score (tie_ranking ! 1) < score x)
                          [scored_player ''a'' 10, scored_player ''b'' 10])))"
proof -
  have m: "tie_ranking ! 1 \<in> set tie_ranking" by (simp add: tie_ranking_eval)
  show ?thesis using m rankAndAllocateWinnings_rank [OF m] by simp
qed

theorem rankAndAllocateWinnings_ties_witness:
  "tie_ranking ! 0 \<in> set tie_ranking \<and> tie_ranking ! 1 \<in> set tie_ranking \<and>
   score (tie_ranking ! 0) = score (tie_ranking ! 1) \<and>
   rank (tie_ranking ! 0) = rank (tie_ranking ! 1) \<and>
   \<bar>winnings_of (tie_ranking ! 0) - winnings_of (tie_ranking ! 1)\<bar> \<le> 1"
proof -
  have m: "tie_ranking ! 0 \<in> set tie_ranking" "tie_ranking ! 1 \<in> set tie_ranking"
    by (simp_all add: tie_ranking_eval)
  have e: "score (tie_ranking ! 0) = score (tie_ranking ! 1)"
    by (simp add: tie_ranking_eval)
  show ?thesis using m e rankAndAllocateWinnings_ties [OF m e] by simp
qed

theorem rankAndAllocateWinnings_nonneg_witness:
  "tie_ranking ! 1 \<in> set tie_ranking \<and> 0 \<le> winnings_of (tie_ranking ! 1)"
proof -
  have m: "tie_ranking ! 1 \<in> set tie_ranking" by (simp add: tie_ranking_eval)
  show ?thesis using m rankAndAllocateWinnings_nonneg [OF m] by simp
qed

end
