(* ===== verification/WordValidation.thy ===== *)
theory WordValidation
  imports MatchState
begin

text \<open>
  The word legality checker of src/backend/src/utils/wordValidation.ts,
  \<open>canFormWordOnBoard\<close>: a depth-first search from every cell of the board over the
  eight neighbours of a cell, consuming one cell's whole token (a token may be several
  letters, as \<open>"QU"\<close>) per step and never visiting a cell twice on one path.

  The source marks a cell in a shared \<open>visited\<close> matrix for the duration of the
  recursive branch and clears it on every return. A call is only made on a cell that is
  not marked, so every call leaves the matrix as it found it; the model therefore passes
  the set of marked cells down the recursion as a list (\<open>visited\<close>) instead of
  mutating it. Coordinates are integers because the neighbour loop computes \<open>r - 1\<close>
  before its bounds check. \<open>rows\<close> and \<open>cols\<close> are those of the closure:
  \<open>board.length\<close> and \<open>board[0].length\<close>; the model reads \<open>board[r][c]\<close> as
  \<open>board ! r ! c\<close>, which is the source's token on a rectangular board. (On a ragged
  board the source throws a TypeError when it reads past a short row; boards come from
  \<open>generateDiceBoard\<close>, which makes square ones.)
\<close>

section \<open>Definitions\<close>

text \<open>\<open>String.prototype.toUpperCase\<close> on the ASCII letters; other characters are kept.\<close>

definition to_upper_char :: "char \<Rightarrow> char" where
  "to_upper_char ch =
     (let n = (of_char ch :: nat) in if 97 \<le> n \<and> n \<le> 122 then char_of (n - 32) else ch)"

definition toUpperCase :: "string \<Rightarrow> string" where
  "toUpperCase s = map to_upper_char s"

text \<open>\<open>tokenMatchesAtIndex\<close>, lines 18-26: the token is the next \<open>token.length\<close>
  characters of the word.\<close>

definition tokenMatchesAtIndex :: "string \<Rightarrow> string \<Rightarrow> nat \<Rightarrow> bool" where
  "tokenMatchesAtIndex word token index =
     (if index + length token > length word then False
      else list_all (\<lambda>i. word ! (index + i) = token ! i) [0..<length token])"

text \<open>The offsets of the two nested \<open>for\<close> loops over \<open>dr\<close> and \<open>dc\<close>, with
  \<open>(0, 0)\<close> skipped, in the order they run.\<close>

definition neighbour_deltas :: "(int \<times> int) list" where
  "neighbour_deltas = [(-1, -1), (-1, 0), (-1, 1), (0, -1), (0, 1), (1, -1), (1, 0), (1, 1)]"

text \<open>The grid cells, for the termination measure.\<close>

definition grid_cells :: "int \<Rightarrow> int \<Rightarrow> (int \<times> int) set" where
  "grid_cells rows cols = {0..<rows} \<times> {0..<cols}"

text \<open>The termination measure of the search: the number of unmarked grid cells, plus one
  when the current cell is not one of them.\<close>

definition unvisited :: "int \<Rightarrow> int \<Rightarrow> (int \<times> int) list \<Rightarrow> nat" where
  "unvisited rows cols visited = card (grid_cells rows cols - set visited)"

definition dfs_measure :: "int \<Rightarrow> int \<Rightarrow> int \<times> int \<Rightarrow> (int \<times> int) list \<Rightarrow> nat" where
  "dfs_measure rows cols rc visited =
     unvisited rows cols visited + (if rc \<in> grid_cells rows cols - set visited then 0 else 1)"

lemma finite_grid_cells [simp]: "finite (grid_cells rows cols)"
  by (simp add: grid_cells_def)

lemma unvisited_Cons:
  "unvisited rows cols (x # v) =
     (if x \<in> grid_cells rows cols - set v then unvisited rows cols v - 1 else unvisited rows cols v)"
proof -
  have eq: "grid_cells rows cols - set (x # v) = (grid_cells rows cols - set v) - {x}"
    by auto
  show ?thesis
  proof (cases "x \<in> grid_cells rows cols - set v")
    case True
    then show ?thesis by (simp add: unvisited_def eq card_Diff_singleton)
  next
    case False
    then have e2: "(grid_cells rows cols - set v) - {x} = grid_cells rows cols - set v" by blast
    show ?thesis by (simp only: unvisited_def eq e2 if_not_P [OF False])
  qed
qed

lemma unvisited_pos:
  "x \<in> grid_cells rows cols - set v \<Longrightarrow> 0 < unvisited rows cols v"
  by (auto simp: unvisited_def card_gt_0_iff)

text \<open>\<open>dfs\<close>, lines 28-53, and its neighbour loop \<open>try_dirs\<close>: an out-of-range or
  visited neighbour is skipped (\<open>continue\<close>), a successful recursive call returns
  \<open>true\<close> at once.\<close>

function dfs :: "string list list \<Rightarrow> string \<Rightarrow> int \<Rightarrow> int \<Rightarrow> int \<Rightarrow> int \<Rightarrow> nat \<Rightarrow>
    (int \<times> int) list \<Rightarrow> bool"
  and try_dirs :: "string list list \<Rightarrow> string \<Rightarrow> int \<Rightarrow> int \<Rightarrow> int \<Rightarrow> int \<Rightarrow> nat \<Rightarrow>
    (int \<times> int) list \<Rightarrow> (int \<times> int) list \<Rightarrow> bool" where
  "dfs board word rows cols r c index visited =
     (let token = board ! nat r ! nat c in
      if \<not> tokenMatchesAtIndex word token index then False
      else
        (let nextIndex = index + length token in
         if nextIndex = length word then True
         else try_dirs board word rows cols r c nextIndex ((r, c) # visited) neighbour_deltas))"
| "try_dirs board word rows cols r c nextIndex visited [] = False"
| "try_dirs board word rows cols r c nextIndex visited ((dr, dc) # ds) =
     (let nr = r + dr; nc = c + dc in
      if nr < 0 \<or> nr \<ge> rows \<or> nc < 0 \<or> nc \<ge> cols
      then try_dirs board word rows cols r c nextIndex visited ds
      else if (nr, nc) \<in> set visited
      then try_dirs board word rows cols r c nextIndex visited ds
      else if dfs board word rows cols nr nc nextIndex visited then True
      else try_dirs board word rows cols r c nextIndex visited ds)"
  by pat_completeness auto

termination
proof (relation "measures
    [\<lambda>x. case x of Inl (b, w, rows, cols, r, c, i, v) \<Rightarrow> dfs_measure rows cols (r, c) v
               | Inr (b, w, rows, cols, r, c, i, v, ds) \<Rightarrow> unvisited rows cols v,
     \<lambda>x. case x of Inl _ \<Rightarrow> 0 | Inr (b, w, rows, cols, r, c, i, v, ds) \<Rightarrow> length ds]",
    goal_cases)
  case 1
  show ?case by simp
next
  case (2 board word rows cols r c index visited token nextIndex)
  show ?case
    using unvisited_pos [of "(r, c)" rows cols visited]
    by (auto simp: dfs_measure_def unvisited_Cons)
next
  case 3
  then show ?case by simp
next
  case 4
  then show ?case by simp
next
  case (5 board word rows cols r c nextIndex visited dr dc ds nr nc)
  then show ?case by (simp add: dfs_measure_def grid_cells_def)
next
  case 6
  then show ?case by simp
qed

text \<open>\<open>canFormWordOnBoard\<close>, lines 1-61: the guards on the board and the word, then a
  search from every cell in row-major order.\<close>

definition canFormWordOnBoard :: "string list list \<Rightarrow> string \<Rightarrow> bool" where
  "canFormWordOnBoard board rawWord =
     (if board = [] then False
      else
        (let word = toUpperCase rawWord in
         if length word < 1 then False
         else
           (let rows = int (length board); cols = int (length (board ! 0)) in
            if cols = 0 then False
            else list_ex (\<lambda>r. list_ex (\<lambda>c. dfs board word rows cols r c 0 [])
                                  [0..cols - 1]) [0..rows - 1])))"

text \<open>The order in which the calls of the search descend: the measures of its
  termination proof, as a relation on the arguments of both functions.\<close>

definition dfs_order :: "((string list list \<times> string \<times> int \<times> int \<times> int \<times> int \<times> nat \<times> (int \<times> int) list) +
    (string list list \<times> string \<times> int \<times> int \<times> int \<times> int \<times> nat \<times> (int \<times> int) list \<times> (int \<times> int) list)) rel" where
  "dfs_order = measures
    [\<lambda>x. case x of Inl (b, w, rows, cols, r, c, i, v) \<Rightarrow> dfs_measure rows cols (r, c) v
               | Inr (b, w, rows, cols, r, c, i, v, ds) \<Rightarrow> unvisited rows cols v,
     \<lambda>x. case x of Inl _ \<Rightarrow> 0 | Inr (b, w, rows, cols, r, c, i, v, ds) \<Rightarrow> length ds]"

section \<open>Specification: paths through the board\<close>

text \<open>What the search looks for (spec section 4.3): a nonempty path of distinct cells of
  the grid, each a neighbour of the one before in the eight directions, whose tokens,
  read along the path, spell the word.\<close>

definition in_grid :: "int \<Rightarrow> int \<Rightarrow> int \<times> int \<Rightarrow> bool" where
  "in_grid rows cols = (\<lambda>(r, c). 0 \<le> r \<and> r < rows \<and> 0 \<le> c \<and> c < cols)"

definition adjacent :: "int \<times> int \<Rightarrow> int \<times> int \<Rightarrow> bool" where
  "adjacent = (\<lambda>(r, c) (r', c'). (r, c) \<noteq> (r', c') \<and> \<bar>r - r'\<bar> \<le> 1 \<and> \<bar>c - c'\<bar> \<le> 1)"

definition cell_token :: "string list list \<Rightarrow> int \<times> int \<Rightarrow> string" where
  "cell_token board = (\<lambda>(r, c). board ! nat r ! nat c)"

text \<open>The invariant of a search started at the head of a path: the rest of the path avoids
  the cells marked on the way there.\<close>

definition path_from :: "string list list \<Rightarrow> int \<Rightarrow> int \<Rightarrow> (int \<times> int) list \<Rightarrow>
    (int \<times> int) list \<Rightarrow> string \<Rightarrow> bool" where
  "path_from board rows cols visited path s \<longleftrightarrow>
     path \<noteq> [] \<and> distinct path \<and> successively adjacent path \<and>
     (\<forall>x \<in> set (tl path). in_grid rows cols x \<and> x \<notin> set visited) \<and>
     concat (map (cell_token board) path) = s"

definition traces :: "string list list \<Rightarrow> (int \<times> int) list \<Rightarrow> string \<Rightarrow> bool" where
  "traces board path word \<longleftrightarrow>
     path \<noteq> [] \<and> distinct path \<and> successively adjacent path \<and>
     list_all (in_grid (int (length board)) (int (length (board ! 0)))) path \<and>
     concat (map (cell_token board) path) = word"

section \<open>Lemmas\<close>

lemma tokenMatchesAtIndex_iff:
  "tokenMatchesAtIndex word token index \<longleftrightarrow>
   index + length token \<le> length word \<and> take (length token) (drop index word) = token"
proof (cases "index + length token \<le> length word")
  case True
  then have "take (length token) (drop index word) = token \<longleftrightarrow>
             (\<forall>i < length token. word ! (index + i) = token ! i)"
    by (auto simp: list_eq_iff_nth_eq)
  with True show ?thesis
    by (auto simp: tokenMatchesAtIndex_def list_all_iff)
next
  case False
  then show ?thesis by (simp add: tokenMatchesAtIndex_def)
qed

lemma grid_cells_in_grid: "x \<in> grid_cells rows cols \<longleftrightarrow> in_grid rows cols x"
  by (auto simp: grid_cells_def in_grid_def)

declare dfs.simps [simp del] try_dirs.simps [simp del]

lemma try_dirs_iff:
  "try_dirs board word rows cols r c i v ds \<longleftrightarrow>
   (\<exists>(dr, dc) \<in> set ds. in_grid rows cols (r + dr, c + dc) \<and> (r + dr, c + dc) \<notin> set v \<and>
      dfs board word rows cols (r + dr) (c + dc) i v)"
proof (induction ds)
  case Nil
  show ?case by (simp add: try_dirs.simps)
next
  case (Cons d ds)
  obtain dr dc where d: "d = (dr, dc)" by (cases d)
  show ?case using Cons.IH by (auto simp: d try_dirs.simps in_grid_def Let_def)
qed

lemma abs_le_one_int: "\<bar>x::int\<bar> \<le> 1 \<longleftrightarrow> x = -1 \<or> x = 0 \<or> x = 1"
  by arith

lemma deltas_adjacent:
  "(dr, dc) \<in> set neighbour_deltas \<longleftrightarrow> adjacent (r, c) (r + dr, c + dc)"
proof -
  have "adjacent (r, c) (r + dr, c + dc) \<longleftrightarrow> \<not> (dr = 0 \<and> dc = 0) \<and> \<bar>dr\<bar> \<le> 1 \<and> \<bar>dc\<bar> \<le> 1"
    by (auto simp: adjacent_def)
  also have "\<dots> \<longleftrightarrow> (dr, dc) \<in> set neighbour_deltas"
    unfolding abs_le_one_int neighbour_deltas_def by auto
  finally show ?thesis ..
qed

lemma dfs_measure_less:
  "in_grid rows cols n \<Longrightarrow> n \<notin> set ((r, c) # v) \<Longrightarrow>
   dfs_measure rows cols n ((r, c) # v) < dfs_measure rows cols (r, c) v"
  using unvisited_pos [of "(r, c)" rows cols v]
  by (auto simp: dfs_measure_def unvisited_Cons grid_cells_in_grid)

lemma dfs_unfold:
  "dfs board word rows cols r c i v \<longleftrightarrow>
   tokenMatchesAtIndex word (board ! nat r ! nat c) i \<and>
   (i + length (board ! nat r ! nat c) = length word \<or>
    try_dirs board word rows cols r c (i + length (board ! nat r ! nat c)) ((r, c) # v) neighbour_deltas)"
  by (simp add: dfs.simps Let_def)

lemma token_prefix:
  "take (length t) (drop i word) = t \<Longrightarrow> t @ drop (i + length t) word = drop i word"
  by (metis append_take_drop_id drop_drop add.commute)

lemma dfs_sound:
  "dfs board word rows cols r c i v \<Longrightarrow>
   \<exists>rest. path_from board rows cols v ((r, c) # rest) (drop i word)"
proof (induction "dfs_measure rows cols (r, c) v" arbitrary: r c i v rule: less_induct)
  case less
  let ?t = "board ! nat r ! nat c"
  let ?j = "i + length ?t"
  from less.prems have m: "tokenMatchesAtIndex word ?t i"
    and alt: "?j = length word \<or> try_dirs board word rows cols r c ?j ((r, c) # v) neighbour_deltas"
    by (simp_all add: dfs_unfold)
  from m have le: "?j \<le> length word" and tk: "take (length ?t) (drop i word) = ?t"
    by (simp_all add: tokenMatchesAtIndex_iff)
  have split: "?t @ drop ?j word = drop i word" using tk by (rule token_prefix)
  from alt show ?case
  proof
    assume "?j = length word"
    with split have "cell_token board (r, c) = drop i word" by (simp add: cell_token_def)
    then have "path_from board rows cols v [(r, c)] (drop i word)" by (simp add: path_from_def)
    then show ?thesis by blast
  next
    assume "try_dirs board word rows cols r c ?j ((r, c) # v) neighbour_deltas"
    then obtain dr dc where d: "(dr, dc) \<in> set neighbour_deltas"
      and g: "in_grid rows cols (r + dr, c + dc)" and nv: "(r + dr, c + dc) \<notin> set ((r, c) # v)"
      and rec: "dfs board word rows cols (r + dr) (c + dc) ?j ((r, c) # v)"
      by (auto simp: try_dirs_iff)
    have "dfs_measure rows cols (r + dr, c + dc) ((r, c) # v) < dfs_measure rows cols (r, c) v"
      using g nv by (rule dfs_measure_less)
    from less.hyps [OF this rec] obtain rest where
      p: "path_from board rows cols ((r, c) # v) ((r + dr, c + dc) # rest) (drop ?j word)" by blast
    have adj: "adjacent (r, c) (r + dr, c + dc)" using d deltas_adjacent by blast
    have "path_from board rows cols v ((r, c) # (r + dr, c + dc) # rest) (drop i word)"
      using p g nv adj split by (auto simp: path_from_def cell_token_def)
    then show ?thesis by blast
  qed
qed

lemma dfs_complete:
  "path_from board rows cols v ((r, c) # rest) (drop i word) \<Longrightarrow> i \<le> length word \<Longrightarrow>
   dfs board word rows cols r c i v"
proof (induction rest arbitrary: r c i v)
  case Nil
  then have t: "board ! nat r ! nat c = drop i word" by (simp add: path_from_def cell_token_def)
  with Nil.prems(2) show ?case
    by (simp add: dfs_unfold tokenMatchesAtIndex_iff)
next
  case (Cons n rest)
  let ?t = "board ! nat r ! nat c"
  let ?j = "i + length ?t"
  obtain nr nc where n: "n = (nr, nc)" by (cases n)
  from Cons.prems(1) have cat: "?t @ concat (map (cell_token board) (n # rest)) = drop i word"
    by (simp add: path_from_def cell_token_def)
  then have tk: "take (length ?t) (drop i word) = ?t" and le: "?j \<le> length word"
    by (metis append_eq_conv_conj, metis cat length_append length_drop le_add1 le_diff_conv2 Cons.prems(2) add.commute)
  have rest_eq: "concat (map (cell_token board) (n # rest)) = drop ?j word"
    using cat by (metis append_eq_conv_conj drop_drop add.commute)
  show ?case
  proof (cases "?j = length word")
    case True
    with tk show ?thesis by (simp add: dfs_unfold tokenMatchesAtIndex_iff)
  next
    case False
    from Cons.prems(1) have adj: "adjacent (r, c) n" and g: "in_grid rows cols n"
      and nv: "n \<notin> set ((r, c) # v)"
      by (auto simp: path_from_def)
    have "path_from board rows cols ((r, c) # v) (n # rest) (drop ?j word)"
      using Cons.prems(1) rest_eq by (auto simp: path_from_def)
    then have rec: "dfs board word rows cols nr nc ?j ((r, c) # v)"
      using Cons.IH le n by blast
    have d: "(nr - r, nc - c) \<in> set neighbour_deltas"
      using adj n deltas_adjacent [of "nr - r" "nc - c" r c] by simp
    have "try_dirs board word rows cols r c ?j ((r, c) # v) neighbour_deltas"
      unfolding try_dirs_iff using d g nv rec n by (intro bexI [of _ "(nr - r, nc - c)"]) auto
    with tk le show ?thesis by (simp add: dfs_unfold tokenMatchesAtIndex_iff)
  qed
qed

lemma traces_path_from:
  "traces board ((r, c) # rest) word \<longleftrightarrow>
   in_grid (int (length board)) (int (length (board ! 0))) (r, c) \<and>
   path_from board (int (length board)) (int (length (board ! 0))) [] ((r, c) # rest) word"
  by (auto simp: traces_def path_from_def list_all_iff)

lemma list_ex_grid:
  "list_ex (\<lambda>r. list_ex (\<lambda>c. P r c) [0..cols - 1]) [0..rows - 1] \<longleftrightarrow>
   (\<exists>r c. in_grid rows cols (r, c) \<and> P r c)"
proof -
  have e: "\<And>n::int. set [0..n - 1] = {0..<n}" by auto
  show ?thesis unfolding list_ex_iff e in_grid_def by fastforce
qed

lemma traces_grid_nonempty:
  assumes "traces board path word"
  shows "board \<noteq> [] \<and> board ! 0 \<noteq> []"
proof -
  obtain r c rest where "path = (r, c) # rest"
    using assms by (metis traces_def neq_Nil_conv surj_pair)
  with assms have "in_grid (int (length board)) (int (length (board ! 0))) (r, c)"
    by (simp add: traces_def)
  then show ?thesis by (auto simp: in_grid_def)
qed

text \<open>Every call the search makes descends in \<open>dfs_order\<close>.\<close>

lemma dfs_calls_descend: "dfs_try_dirs_rel y x \<Longrightarrow> (y, x) \<in> dfs_order"
proof (induction rule: dfs_try_dirs_rel.cases)
  case (1 board word rows cols r c index visited token nextIndex)
  then show ?case
    using unvisited_pos [of "(r, c)" rows cols visited]
    by (auto simp: dfs_order_def dfs_measure_def unvisited_Cons)
next
  case 2 then show ?case by (simp add: dfs_order_def)
next
  case 3 then show ?case by (simp add: dfs_order_def)
next
  case 4 then show ?case by (simp add: dfs_order_def dfs_measure_def grid_cells_def)
next
  case 5 then show ?case by (simp add: dfs_order_def)
qed

text \<open>C17: The board search terminates on every board, word and start cell: the
  relation between a call of \<open>dfs\<close> or of its neighbour loop and the calls it makes is
  contained in \<open>dfs_order\<close>, which is well founded, since marking the current cell visited shrinks the set of unvisited grid
  cells and the neighbour loop walks down its list of offsets.\<close>

theorem dfs_terminates:
  "wf dfs_order \<and> {(y, x). dfs_try_dirs_rel y x} \<subseteq> dfs_order \<and> wf {(y, x). dfs_try_dirs_rel y x}"
proof -
  have w: "wf dfs_order" by (simp add: dfs_order_def)
  have s: "{(y, x). dfs_try_dirs_rel y x} \<subseteq> dfs_order" using dfs_calls_descend by blast
  from w s show ?thesis using wf_subset by blast
qed

text \<open>C16: the search accepts a word exactly when its upper-case form is nonempty
  and some path through the board spells it.\<close>

theorem canFormWordOnBoard_iff:
  "canFormWordOnBoard board w \<longleftrightarrow>
   toUpperCase w \<noteq> [] \<and> (\<exists>path. traces board path (toUpperCase w))"
proof (cases "board = [] \<or> toUpperCase w = [] \<or> length (board ! 0) = 0")
  case True
  then have "\<not> canFormWordOnBoard board w" by (auto simp: canFormWordOnBoard_def Let_def)
  with True show ?thesis using traces_grid_nonempty by blast
next
  case False
  let ?rows = "int (length board)" and ?cols = "int (length (board ! 0))" and ?w = "toUpperCase w"
  have "canFormWordOnBoard board w \<longleftrightarrow>
        (\<exists>r c. in_grid ?rows ?cols (r, c) \<and> dfs board ?w ?rows ?cols r c 0 [])"
    using False by (simp add: canFormWordOnBoard_def Let_def list_ex_grid)
  also have "\<dots> \<longleftrightarrow> (\<exists>path. traces board path ?w)"
  proof
    assume "\<exists>r c. in_grid ?rows ?cols (r, c) \<and> dfs board ?w ?rows ?cols r c 0 []"
    then obtain r c where "in_grid ?rows ?cols (r, c)" "dfs board ?w ?rows ?cols r c 0 []" by blast
    then show "\<exists>path. traces board path ?w"
      using dfs_sound traces_path_from by fastforce
  next
    assume "\<exists>path. traces board path ?w"
    then obtain r c rest where "traces board ((r, c) # rest) ?w"
      by (metis traces_def neq_Nil_conv surj_pair)
    then show "\<exists>r c. in_grid ?rows ?cols (r, c) \<and> dfs board ?w ?rows ?cols r c 0 []"
      using dfs_complete [of board ?rows ?cols "[]" r c rest 0 ?w] traces_path_from by auto
  qed
  finally show ?thesis using False by simp
qed

text \<open>the scenario of the specification: on the board with first row C, A, T and
  X elsewhere, CAT is legal.\<close>

theorem canFormWordOnBoard_cat:
  "canFormWordOnBoard [[''C'', ''A'', ''T''], [''X'', ''X'', ''X''], [''X'', ''X'', ''X'']] ''CAT''"
  by code_simp

end
