(* ===== verification/Dictionary.thy ===== *)
theory Dictionary
  imports WordValidation "HOL-Library.Sublist" "HOL-Library.AList"
begin

text \<open>
  The dictionary of src/backend/src/services/dictionary.ts: a prefix tree (\<open>Trie\<close>)
  whose nodes hold a \<open>Map\<close> from a character to the child node and an \<open>isWord\<close>
  flag, built once by \<open>initDictionary\<close> from the lines of a word list, and the
  module-level \<open>isWord\<close> and \<open>hasPrefix\<close> that answer \<open>false\<close> before it is built.

  A JavaScript \<open>Map\<close> keeps its keys in insertion order and \<open>set\<close> on a new key
  appends it, which is what \<open>AList.update\<close> does to an association list; the model's
  children are such a list. \<open>insert\<close> mutates the child it descends into in place; the
  model returns the updated child and stores it under the same key. Reading the word
  file is I/O: the model takes the file's content, or \<open>None\<close> when the read fails and
  the built-in fallback list is used.
\<close>

section \<open>Definitions\<close>

datatype trie = TrieNode (children: "(char \<times> trie) list") (node_isWord: bool)

definition empty_trie :: trie where
  "empty_trie = TrieNode [] False"

text \<open>\<open>Trie.insert\<close>, lines 13-24.\<close>

fun trie_insert :: "string \<Rightarrow> trie \<Rightarrow> trie" where
  "trie_insert [] (TrieNode m b) = TrieNode m True"
| "trie_insert (ch # w) (TrieNode m b) =
     (let next = (case map_of m ch of None \<Rightarrow> empty_trie | Some t \<Rightarrow> t)
      in TrieNode (AList.update ch (trie_insert w next) m) b)"

text \<open>The walk shared by \<open>Trie.hasPrefix\<close> (lines 26-34) and \<open>Trie.isWord\<close>
  (lines 36-44): follow the characters, fail at the first missing child.\<close>

fun trie_walk :: "trie \<Rightarrow> string \<Rightarrow> trie option" where
  "trie_walk t [] = Some t"
| "trie_walk (TrieNode m b) (ch # w) =
     (case map_of m ch of None \<Rightarrow> None | Some t \<Rightarrow> trie_walk t w)"

definition trie_hasPrefix :: "trie \<Rightarrow> string \<Rightarrow> bool" where
  "trie_hasPrefix t pfx = (trie_walk t pfx \<noteq> None)"

definition trie_isWord :: "trie \<Rightarrow> string \<Rightarrow> bool" where
  "trie_isWord t word = (case trie_walk t word of None \<Rightarrow> False | Some n \<Rightarrow> node_isWord n)"

text \<open>\<open>String.prototype.trim\<close> on the ASCII white space (tab, line feed, vertical
  tab, form feed, carriage return, space).\<close>

definition is_space :: "char \<Rightarrow> bool" where
  "is_space ch = (of_char ch \<in> {9, 10, 11, 12, 13, 32 :: nat})"

definition trim :: "string \<Rightarrow> string" where
  "trim s = rev (dropWhile is_space (rev (dropWhile is_space s)))"

text \<open>\<open>/^[A-Z]+$/.test(w)\<close> for a nonempty \<open>w\<close>.\<close>

definition is_upper_alpha :: "char \<Rightarrow> bool" where
  "is_upper_alpha ch = (let n = (of_char ch :: nat) in 65 \<le> n \<and> n \<le> 90)"

definition alpha_word :: "string \<Rightarrow> bool" where
  "alpha_word w = (w \<noteq> [] \<and> list_all is_upper_alpha w)"

text \<open>\<open>content.split(/\r?\n/)\<close>: split at each line feed and drop the carriage return
  before it.\<close>

fun split_lf :: "string \<Rightarrow> string list" where
  "split_lf [] = [[]]"
| "split_lf (ch # s) =
     (let rest = split_lf s in
      if ch = CHR 0x0A then [] # rest else (ch # hd rest) # tl rest)"

definition drop_cr :: "string \<Rightarrow> string" where
  "drop_cr l = (if l \<noteq> [] \<and> last l = CHR 0x0D then butlast l else l)"

definition split_lines :: "string \<Rightarrow> string list" where
  "split_lines content = map drop_cr (split_lf content)"

text \<open>The built-in list used when the word file cannot be read, lines 81-93.\<close>

definition fallback_words :: "string list" where
  "fallback_words = [''CAT'', ''CATS'', ''DOG'', ''DO'', ''GO'', ''GONE'', ''QUIET'', ''QUIZ'',
     ''TREE'', ''READ'', ''WORD'']"

definition join_lines :: "string list \<Rightarrow> string" where
  "join_lines ws = concat (map (\<lambda>w. w @ [CHR 0x0A]) (butlast ws)) @ (if ws = [] then [] else last ws)"

text \<open>The word list \<open>initDictionary\<close> builds from a file's content, lines 95-98.\<close>

definition dictionary_words :: "string \<Rightarrow> string list" where
  "dictionary_words content =
     filter (\<lambda>w. 3 \<le> length w \<and> alpha_word w) (map (\<lambda>w. toUpperCase (trim w)) (split_lines content))"

definition build_trie :: "string list \<Rightarrow> trie" where
  "build_trie ws = fold trie_insert ws empty_trie"

text \<open>The module state: \<open>trie\<close> and \<open>initialized\<close> are set together, so one
  option holds both.\<close>

type_synonym dict_state = "trie option"

text \<open>\<open>initDictionary\<close>, lines 73-103; \<open>file\<close> is the content read, \<open>None\<close> when
  \<open>readFileSync\<close> throws.\<close>

definition initDictionary :: "string option \<Rightarrow> dict_state \<Rightarrow> dict_state" where
  "initDictionary file st =
     (case st of
        Some t \<Rightarrow> Some t
      | None \<Rightarrow>
          (let content = (case file of Some c \<Rightarrow> c | None \<Rightarrow> join_lines fallback_words)
           in Some (build_trie (dictionary_words content))))"

text \<open>\<open>isWord\<close> and \<open>hasPrefix\<close>, lines 105-115.\<close>

definition isWord :: "dict_state \<Rightarrow> string \<Rightarrow> bool" where
  "isWord st word = (case st of None \<Rightarrow> False | Some t \<Rightarrow> trie_isWord t (toUpperCase word))"

definition hasPrefix :: "dict_state \<Rightarrow> string \<Rightarrow> bool" where
  "hasPrefix st pfx = (case st of None \<Rightarrow> False | Some t \<Rightarrow> trie_hasPrefix t (toUpperCase pfx))"

text \<open>The well-formedness of a trie: the keys of each node's children are distinct.\<close>

fun trie_wf :: "trie \<Rightarrow> bool" where
  "trie_wf (TrieNode m b) \<longleftrightarrow> distinct (map fst m) \<and> (\<forall>kt \<in> set m. trie_wf (snd kt))"

text \<open>A line that survives joining and splitting unchanged.\<close>

definition plain_line :: "string \<Rightarrow> bool" where
  "plain_line w \<longleftrightarrow> CHR 0x0A \<notin> set w \<and> drop_cr w = w"

section \<open>Lemmas\<close>

lemma trie_walk_empty [simp]: "trie_walk empty_trie w = (if w = [] then Some empty_trie else None)"
  by (cases w) (simp_all add: empty_trie_def)

lemma node_isWord_empty [simp]: "node_isWord empty_trie = False"
  by (simp add: empty_trie_def)

lemma trie_walk_insert:
  "trie_walk (trie_insert v t) w \<noteq> None \<longleftrightarrow> trie_walk t w \<noteq> None \<or> prefix w v"
proof (induction v t arbitrary: w rule: trie_insert.induct)
  case (1 m b)
  then show ?case by (cases w) auto
next
  case (2 ch v m b)
  show ?case
  proof (cases w)
    case Nil
    then show ?thesis by simp
  next
    case (Cons x w')
    then show ?thesis using "2.IH" [OF refl]
      by (auto simp: Let_def update_conv' split: option.splits)
  qed
qed

lemma trie_isWord_insert:
  "trie_isWord (trie_insert v t) w \<longleftrightarrow> trie_isWord t w \<or> w = v"
proof (induction v t arbitrary: w rule: trie_insert.induct)
  case (1 m b)
  then show ?case by (cases w) (auto simp: trie_isWord_def)
next
  case (2 ch v m b)
  show ?case
  proof (cases w)
    case Nil
    then show ?thesis by (simp add: trie_isWord_def)
  next
    case (Cons x w')
    then show ?thesis using "2.IH" [OF refl]
      by (auto simp: Let_def update_conv' trie_isWord_def split: option.splits if_splits)
  qed
qed

lemma trie_isWord_fold:
  "trie_isWord (fold trie_insert ws t) w \<longleftrightarrow> trie_isWord t w \<or> w \<in> set ws"
  by (induction ws arbitrary: t) (auto simp: trie_isWord_insert)

lemma trie_hasPrefix_insert:
  "trie_hasPrefix (trie_insert v t) w \<longleftrightarrow> trie_hasPrefix t w \<or> prefix w v"
  unfolding trie_hasPrefix_def by (rule trie_walk_insert)

lemma trie_hasPrefix_fold:
  "trie_hasPrefix (fold trie_insert ws t) w \<longleftrightarrow> trie_hasPrefix t w \<or> (\<exists>v \<in> set ws. prefix w v)"
  by (induction ws arbitrary: t) (auto simp: trie_hasPrefix_insert)

lemma trie_isWord_empty [simp]: "\<not> trie_isWord empty_trie w"
  by (simp add: trie_isWord_def)

lemma trie_hasPrefix_empty [simp]: "trie_hasPrefix empty_trie w \<longleftrightarrow> w = []"
  by (simp add: trie_hasPrefix_def)

lemma build_trie_isWord: "trie_isWord (build_trie ws) w \<longleftrightarrow> w \<in> set ws"
  by (simp add: build_trie_def trie_isWord_fold)

lemma build_trie_hasPrefix:
  "trie_hasPrefix (build_trie ws) w \<longleftrightarrow> w = [] \<or> (\<exists>v \<in> set ws. prefix w v)"
  by (auto simp: build_trie_def trie_hasPrefix_fold)

lemma trie_wf_empty [simp]: "trie_wf empty_trie"
  by (simp add: empty_trie_def)

lemma trie_wf_insert: "trie_wf t \<Longrightarrow> trie_wf (trie_insert v t)"
proof (induction v t rule: trie_insert.induct)
  case (1 m b)
  then show ?case by simp
next
  case (2 ch v m b)
  let ?next = "case map_of m ch of None \<Rightarrow> empty_trie | Some t \<Rightarrow> t"
  have "trie_wf ?next"
    using "2.prems" by (auto split: option.splits dest: map_of_SomeD)
  then have new: "trie_wf (trie_insert v ?next)" by (rule "2.IH" [OF refl])
  let ?m' = "AList.update ch (trie_insert v ?next) m"
  have "\<forall>kt \<in> set ?m'. trie_wf (snd kt)"
  proof
    fix kt assume "kt \<in> set ?m'"
    then have "kt \<in> insert (ch, trie_insert v ?next) (set m)"
      by (auto dest: set_alist_update)
    with new "2.prems" show "trie_wf (snd kt)" by auto
  qed
  moreover have "distinct (map fst ?m')" using "2.prems" by (simp add: distinct_update)
  ultimately show ?case by (simp add: Let_def)
qed

text \<open>a trie built by inserting words keeps the keys of every node's child map distinct, as a JavaScript Map does.\<close>

theorem build_trie_wf: "trie_wf (build_trie ws)"
proof -
  have "trie_wf t \<Longrightarrow> trie_wf (fold trie_insert ws t)" for t
    by (induction ws arbitrary: t) (auto intro: trie_wf_insert)
  then show ?thesis by (simp add: build_trie_def)
qed

lemma split_lf_no_lf: "CHR 0x0A \<notin> set w \<Longrightarrow> split_lf w = [w]"
  by (induction w) (auto simp: Let_def)

lemma split_lf_append_lf:
  "CHR 0x0A \<notin> set w \<Longrightarrow> split_lf (w @ CHR 0x0A # s) = w # split_lf s"
proof (induction w)
  case Nil
  then show ?case by simp
next
  case (Cons ch w)
  then have "split_lf (w @ CHR 0x0A # s) = w # split_lf s" by simp
  with Cons.prems show ?case by (auto simp: Let_def)
qed

lemma join_lines_Cons:
  "ws \<noteq> [] \<Longrightarrow> join_lines (w # ws) = w @ CHR 0x0A # join_lines ws"
  by (simp add: join_lines_def)

lemma split_lf_join_lines:
  "ws \<noteq> [] \<Longrightarrow> \<forall>w \<in> set ws. plain_line w \<Longrightarrow> split_lf (join_lines ws) = ws"
proof (induction ws)
  case Nil
  then show ?case by simp
next
  case (Cons w ws)
  show ?case
  proof (cases "ws = []")
    case True
    with Cons.prems show ?thesis by (simp add: join_lines_def plain_line_def split_lf_no_lf)
  next
    case False
    with Cons show ?thesis by (simp add: join_lines_Cons split_lf_append_lf plain_line_def)
  qed
qed

text \<open>splitting a newline-joined list of lines gives the lines back when no line holds a line feed or ends with a carriage return; the fallback word list goes through this.\<close>

theorem split_lines_join_lines:
  "ws \<noteq> [] \<Longrightarrow> \<forall>w \<in> set ws. plain_line w \<Longrightarrow> split_lines (join_lines ws) = ws"
proof -
  assume ne: "ws \<noteq> []" and pl: "\<forall>w \<in> set ws. plain_line w"
  have "map drop_cr ws = ws"
    using pl by (induction ws) (auto simp: plain_line_def)
  with ne pl show ?thesis by (simp add: split_lines_def split_lf_join_lines)
qed

lemma dictionary_words_shape:
  "w \<in> set (dictionary_words content) \<Longrightarrow> 3 \<le> length w \<and> alpha_word w"
  by (auto simp: dictionary_words_def)

text \<open>C18: after initialisation from a file, isWord accepts exactly the words whose upper-case form is among the trimmed, upper-cased lines of at least three letters A-Z.\<close>

theorem isWord_initDictionary:
  "isWord (initDictionary (Some content) None) w \<longleftrightarrow> toUpperCase w \<in> set (dictionary_words content)"
  by (simp add: isWord_def initDictionary_def build_trie_isWord)

text \<open>after initialisation from a file, hasPrefix accepts exactly the prefixes of dictionary words (and the empty string).\<close>

theorem hasPrefix_initDictionary:
  "hasPrefix (initDictionary (Some content) None) p \<longleftrightarrow>
   toUpperCase p = [] \<or> (\<exists>v \<in> set (dictionary_words content). prefix (toUpperCase p) v)"
  by (simp add: hasPrefix_def initDictionary_def build_trie_hasPrefix)

text \<open>every word the initialised dictionary accepts has at least three letters, all A-Z.\<close>

theorem isWord_shape:
  "isWord (initDictionary file None) w \<Longrightarrow> 3 \<le> length (toUpperCase w) \<and> alpha_word (toUpperCase w)"
  by (auto simp: isWord_def initDictionary_def build_trie_isWord dest: dictionary_words_shape
           split: option.splits)

lemma initDictionary_idem:
  "initDictionary file' (initDictionary file st) = initDictionary file st"
  by (simp add: initDictionary_def split: option.splits)

section \<open>Examples and witnesses\<close>

text \<open>with the word file missing, the built-in list is used: CAT is a word,
  while DO, although listed, is dropped by the three-letter filter.\<close>

theorem isWord_fallback:
  "isWord (initDictionary None None) ''cat'' \<and> \<not> isWord (initDictionary None None) ''DO''"
  by code_simp

theorem split_lines_join_lines_witness:
  "fallback_words \<noteq> [] \<and> list_all plain_line fallback_words \<and>
   split_lines (join_lines fallback_words) = fallback_words"
proof -
  have ne: "fallback_words \<noteq> []" by (simp add: fallback_words_def)
  have pl: "list_all plain_line fallback_words" by code_simp
  then have "\<forall>w \<in> set fallback_words. plain_line w" by (simp add: list_all_iff)
  from split_lines_join_lines [OF ne this] ne pl show ?thesis by simp
qed

theorem isWord_shape_witness:
  "isWord (initDictionary None None) ''cat'' \<and> 3 \<le> length (toUpperCase ''cat'') \<and>
   alpha_word (toUpperCase ''cat'')"
proof -
  have w: "isWord (initDictionary None None) ''cat''" by code_simp
  show ?thesis using w isWord_shape [OF w] by simp
qed

end
