(* ===== verification/Board.thy ===== *)
theory Board
  imports Dictionary "HOL-Library.Word"
begin

text \<open>
  The board generator of src/backend/src/utils/board.ts, \<open>generateDiceBoard\<close>: sixteen
  six-faced dice are shuffled by a Fisher-Yates pass driven by a linear congruential
  generator seeded from the clock, and the cells of a \<open>size\<close> by \<open>size\<close> grid are
  filled in row-major order by rolling the dice in turn, a \<open>Q\<close> face becoming the
  two-letter token \<open>QU\<close>.

  The seed is a JavaScript number. \<open>Date.now() ^ 0x9e3779b9\<close> converts both operands
  to 32-bit two's complement integers and XORs them, which the model computes in
  \<open>32 word\<close> and reads back with \<open>sint\<close>. The step
  \<open>(1664525 * seed + 1013904223) & 0x7fffffff\<close> is computed in double precision and then
  masked to its low 31 bits; the model computes it exactly on \<open>int\<close> and takes it
  modulo \<open>2 ^ 31\<close>, and lemma \<open>lcg_exact\<close> shows that the double arithmetic is exact
  for every seed that occurs, so the two agree. The state of the generator is passed
  explicitly: every step returns its result and the new seed.
\<close>

unbundle bit_operations_syntax

section \<open>Definitions\<close>

text \<open>The dice, lines 2-19.\<close>

definition dice :: "string list list" where
  "dice =
    [[''A'', ''A'', ''E'', ''E'', ''G'', ''N''], [''E'', ''L'', ''R'', ''T'', ''T'', ''Y''],
     [''A'', ''O'', ''O'', ''T'', ''T'', ''W''], [''A'', ''B'', ''B'', ''J'', ''O'', ''O''],
     [''E'', ''H'', ''R'', ''T'', ''V'', ''W''], [''C'', ''I'', ''M'', ''O'', ''T'', ''U''],
     [''D'', ''I'', ''S'', ''T'', ''T'', ''Y''], [''E'', ''I'', ''O'', ''S'', ''S'', ''T''],
     [''D'', ''E'', ''L'', ''R'', ''V'', ''Y''], [''A'', ''C'', ''H'', ''O'', ''P'', ''S''],
     [''H'', ''I'', ''M'', ''N'', ''Q'', ''U''], [''E'', ''E'', ''I'', ''N'', ''S'', ''U''],
     [''E'', ''E'', ''G'', ''H'', ''N'', ''W''], [''A'', ''F'', ''F'', ''K'', ''P'', ''S''],
     [''H'', ''L'', ''N'', ''N'', ''R'', ''Z''], [''D'', ''E'', ''I'', ''L'', ''R'', ''X'']]"

text \<open>\<open>let seed = Date.now() ^ 0x9e3779b9\<close>, line 21.\<close>

definition initial_seed :: "ms \<Rightarrow> int" where
  "initial_seed now = sint (word_of_int (int now) XOR (0x9e3779b9 :: 32 word))"

text \<open>One step of the generator and \<open>nextInt\<close>, lines 22-25.\<close>

definition lcg_step :: "int \<Rightarrow> int" where
  "lcg_step seed = (1664525 * seed + 1013904223) mod 2 ^ 31"

definition nextInt :: "nat \<Rightarrow> int \<Rightarrow> nat \<times> int" where
  "nextInt bound seed = (let s = lcg_step seed in (nat (s mod int bound), s))"

text \<open>\<open>[bag[i], bag[j]] = [bag[j], bag[i]]\<close>.\<close>

definition swap :: "nat \<Rightarrow> nat \<Rightarrow> 'a list \<Rightarrow> 'a list" where
  "swap i j xs = xs[i := xs ! j, j := xs ! i]"

text \<open>The shuffle loop, lines 26-30: \<open>i\<close> runs from the last index down to 1.\<close>

fun shuffle_from :: "nat \<Rightarrow> 'a list \<Rightarrow> int \<Rightarrow> 'a list \<times> int" where
  "shuffle_from 0 bag seed = (bag, seed)"
| "shuffle_from (Suc i) bag seed =
     (let (j, seed') = nextInt (Suc i + 1) seed in shuffle_from i (swap (Suc i) j bag) seed')"

text \<open>The inner loop of lines 36-41 over the \<open>n\<close> cells of a row, from die number
  \<open>idx\<close> on.\<close>

fun roll_row :: "string list list \<Rightarrow> nat \<Rightarrow> nat \<Rightarrow> int \<Rightarrow> string list \<times> int" where
  "roll_row bag idx 0 seed = ([], seed)"
| "roll_row bag idx (Suc n) seed =
     (let die = bag ! (idx mod length bag);
          (k, seed') = nextInt (length die) seed;
          face = die ! k;
          token = (if face = ''Q'' then ''QU'' else face);
          (rest, seed'') = roll_row bag (Suc idx) n seed'
      in (token # rest, seed''))"

text \<open>The outer loop of lines 35-42 over \<open>n\<close> rows of \<open>sz\<close> cells (the source's \<open>size\<close>,
  renamed since \<open>size\<close> is a constant of HOL).\<close>

fun roll_rows :: "string list list \<Rightarrow> nat \<Rightarrow> nat \<Rightarrow> nat \<Rightarrow> int \<Rightarrow> string list list \<times> int" where
  "roll_rows bag idx sz 0 seed = ([], seed)"
| "roll_rows bag idx sz (Suc n) seed =
     (let (row, seed') = roll_row bag idx sz seed;
          (rows, seed'') = roll_rows bag (idx + sz) sz n seed'
      in (row # rows, seed''))"

text \<open>\<open>generateDiceBoard\<close>, lines 1-44, at clock value \<open>now\<close>.\<close>

definition generateDiceBoard :: "nat \<Rightarrow> ms \<Rightarrow> board" where
  "generateDiceBoard sz now =
     (let (bag, seed) = shuffle_from (length dice - 1) dice (initial_seed now)
      in fst (roll_rows bag 0 sz sz seed))"

section \<open>Lemmas\<close>

text \<open>The range of a 32-bit signed seed.\<close>

definition seed_ok :: "int \<Rightarrow> bool" where
  "seed_ok s \<longleftrightarrow> - (2 ^ 31) \<le> s \<and> s < 2 ^ 31"

lemma initial_seed_ok: "seed_ok (initial_seed now)"
  using sint_ge [of "word_of_int (int now) XOR (0x9e3779b9 :: 32 word)"]
        sint_lt [of "word_of_int (int now) XOR (0x9e3779b9 :: 32 word)"]
  by (simp add: seed_ok_def initial_seed_def)

lemma lcg_step_range: "0 \<le> lcg_step s \<and> lcg_step s < 2 ^ 31"
  by (simp add: lcg_step_def)

lemma seed_ok_lcg_step [simp]: "seed_ok (lcg_step s)"
  using lcg_step_range [of s] by (simp add: seed_ok_def)

lemma nextInt_seed: "snd (nextInt bound s) = lcg_step s"
  by (simp add: nextInt_def Let_def)

lemma nextInt_less: "0 < bound \<Longrightarrow> fst (nextInt bound s) < bound"
  using lcg_step_range [of s]
  by (simp add: nextInt_def Let_def nat_less_iff)

lemma mset_swap_eq [simp]:
  "i < length xs \<Longrightarrow> j < length xs \<Longrightarrow> mset (swap i j xs) = mset xs"
  unfolding swap_def using mset_swap [of j xs i] by simp

lemma length_swap [simp]: "length (swap i j xs) = length xs"
  by (simp add: swap_def)

lemma shuffle_from_mset:
  "i < length bag \<Longrightarrow> mset (fst (shuffle_from i bag s)) = mset bag"
proof (induction i bag s rule: shuffle_from.induct)
  case (1 bag seed)
  then show ?case by simp
next
  case (2 i bag seed)
  obtain j seed' where n: "nextInt (Suc i + 1) seed = (j, seed')"
    by (cases "nextInt (Suc i + 1) seed")
  have "j < Suc i + 1" using nextInt_less [of "Suc i + 1" seed] n by simp
  then have "mset (swap (Suc i) j bag) = mset bag" using "2.prems" by simp
  moreover have "mset (fst (shuffle_from i (swap (Suc i) j bag) seed')) = mset (swap (Suc i) j bag)"
    using "2.IH" [OF n [symmetric] refl] "2.prems" by simp
  ultimately show ?case using n by simp
qed

lemma shuffle_from_dice_nonempty:
  "bag = fst (shuffle_from (length dice - 1) dice s) \<Longrightarrow> bag \<noteq> [] \<and> set bag = set dice"
proof -
  assume b: "bag = fst (shuffle_from (length dice - 1) dice s)"
  have "mset bag = mset dice" using b shuffle_from_mset [of "length dice - 1" dice s]
    by (simp add: dice_def)
  then show ?thesis by (metis mset_eq_setD dice_def list.distinct(1) mset_zero_iff)
qed

text \<open>The tokens a roll of the dice in \<open>bag\<close> can show.\<close>

definition faces :: "string list list \<Rightarrow> string set" where
  "faces bag = (\<lambda>f. if f = ''Q'' then ''QU'' else f) ` (\<Union>d \<in> set bag. set d)"

lemma roll_row_Suc_fst:
  "fst (roll_row bag idx (Suc n) s) =
     (let die = bag ! (idx mod length bag); face = die ! fst (nextInt (length die) s)
      in (if face = ''Q'' then ''QU'' else face) #
           fst (roll_row bag (Suc idx) n (snd (nextInt (length die) s))))"
  by (simp add: Let_def split_def)

lemma roll_rows_Suc_fst:
  "fst (roll_rows bag idx sz (Suc n) s) =
     fst (roll_row bag idx sz s) # fst (roll_rows bag (idx + sz) sz n (snd (roll_row bag idx sz s)))"
  by (simp add: Let_def split_def)

declare roll_row.simps(2) [simp del] roll_rows.simps(2) [simp del]

lemma roll_row_length [simp]: "length (fst (roll_row bag idx n s)) = n"
  by (induction n arbitrary: idx s) (simp_all add: roll_row_Suc_fst Let_def)

lemma roll_rows_shape:
  "length (fst (roll_rows bag idx sz n s)) = n \<and> list_all (\<lambda>row. length row = sz) (fst (roll_rows bag idx sz n s))"
  by (induction n arbitrary: idx s) (simp_all add: roll_rows_Suc_fst)

lemma roll_row_faces:
  assumes "bag \<noteq> []" "list_all (\<lambda>d. d \<noteq> []) bag"
  shows "set (fst (roll_row bag idx n s)) \<subseteq> faces bag"
proof (induction n arbitrary: idx s)
  case 0
  then show ?case by simp
next
  case (Suc n)
  define die where "die = bag ! (idx mod length bag)"
  obtain k seed' where k: "nextInt (length die) s = (k, seed')"
    by (cases "nextInt (length die) s")
  have die_in: "die \<in> set bag" using assms(1) by (simp add: die_def)
  then have "k < length die"
    using nextInt_less [of "length die" s] k assms(2) by (simp add: list_all_iff)
  then have "die ! k \<in> (\<Union>d \<in> set bag. set d)" using die_in nth_mem by blast
  then have tok: "(if die ! k = ''Q'' then ''QU'' else die ! k) \<in> faces bag"
    unfolding faces_def by (rule imageI)
  have rest: "set (fst (roll_row bag (Suc idx) n seed')) \<subseteq> faces bag"
    using Suc.IH .
  have "fst (nextInt (length die) s) = k" "snd (nextInt (length die) s) = seed'"
    using k by simp_all
  then show ?case using tok rest
    unfolding roll_row_Suc_fst Let_def die_def [symmetric] by (simp split: if_split_asm)
qed

lemma roll_rows_faces:
  assumes "bag \<noteq> []" "list_all (\<lambda>d. d \<noteq> []) bag"
  shows "list_all (\<lambda>row. set row \<subseteq> faces bag) (fst (roll_rows bag idx sz n s))"
proof (induction n arbitrary: idx s)
  case 0
  then show ?case by simp
next
  case (Suc n)
  then show ?case
    using roll_row_faces [OF assms, of idx sz s] by (simp add: roll_rows_Suc_fst)
qed

lemma Q_notin_faces [simp]: "''Q'' \<notin> faces bag"
  by (auto simp: faces_def)

lemma faces_shuffled_dice: "faces (fst (shuffle_from (length dice - 1) dice s)) = faces dice"
  using shuffle_from_dice_nonempty [OF refl, of s] by (simp add: faces_def)

lemma dice_nonempty: "list_all (\<lambda>d. d \<noteq> []) dice"
  by (simp add: dice_def)

lemma lcg_product_bound: "seed_ok s \<Longrightarrow> \<bar>1664525 * s + 1013904223\<bar> < 2 ^ 53"
  by (simp add: seed_ok_def abs_less_iff)

section \<open>Properties\<close>

text \<open>\<open>generateDiceBoard sz now\<close> is a square board: \<open>sz\<close> rows of \<open>sz\<close> tokens each.\<close>

theorem generateDiceBoard_square:
  "length (generateDiceBoard sz now) = sz \<and> list_all (\<lambda>row. length row = sz) (generateDiceBoard sz now)"
  by (simp add: generateDiceBoard_def split_def Let_def roll_rows_shape)

text \<open>every token of a generated board is a face of one of the sixteen dice,
  a \<open>Q\<close> face read as \<open>QU\<close>; in particular no cell holds a bare \<open>Q\<close>.\<close>

theorem generateDiceBoard_tokens:
  "list_all (\<lambda>row. set row \<subseteq> faces dice \<and> ''Q'' \<notin> set row) (generateDiceBoard sz now)"
proof -
  obtain bag seed where b: "shuffle_from (length dice - 1) dice (initial_seed now) = (bag, seed)"
    by (cases "shuffle_from (length dice - 1) dice (initial_seed now)")
  have ne: "bag \<noteq> []" and fs: "faces bag = faces dice"
    using shuffle_from_dice_nonempty [OF refl, of "initial_seed now"]
          faces_shuffled_dice [of "initial_seed now"] b by simp_all
  have sb: "set bag = set dice"
    using shuffle_from_dice_nonempty [OF refl, of "initial_seed now"] b by simp
  then have "list_all (\<lambda>d. d \<noteq> []) bag"
    using dice_nonempty by (simp add: list_all_iff)
  then have "list_all (\<lambda>row. set row \<subseteq> faces bag) (fst (roll_rows bag 0 sz sz seed))"
    using roll_rows_faces ne by blast
  then have "list_all (\<lambda>row. set row \<subseteq> faces dice) (generateDiceBoard sz now)"
    using b fs by (simp add: generateDiceBoard_def)
  then show ?thesis
    by (rule list.pred_mono_strong) (metis Q_notin_faces subsetD)
qed

text \<open>the Fisher-Yates pass of lines 26-30 permutes the dice: the shuffled bag
  holds each die exactly as often as \<open>dice\<close> does.\<close>

theorem shuffle_dice_perm:
  "mset (fst (shuffle_from (length dice - 1) dice s)) = mset dice"
  using shuffle_from_mset [of "length dice - 1" dice s] by (simp add: dice_def)

text \<open>For every seed in the 32-bit signed range (the initial seed is, lemma
  \<open>initial_seed_ok\<close>), the product \<open>1664525 * seed + 1013904223\<close> stays below
  \<open>2 ^ 53\<close> in magnitude, so the double-precision arithmetic of line 23 is exact, and the
  masked result is a nonnegative seed in range again.\<close>

lemma lcg_exact:
  "seed_ok s \<Longrightarrow> \<bar>1664525 * s + 1013904223\<bar> < 2 ^ 53 \<and> 0 \<le> lcg_step s \<and> seed_ok (lcg_step s)"
  using lcg_product_bound lcg_step_range by simp

end
