(* ===== verification/Ledger.thy ===== *)
theory Ledger
  imports Prelude
begin

text \<open>
  The ledger collaborator of src/backend/src/services/database.ts: user accounts with a
  gem balance and a bonus-gem balance, and the journal of transactions.
  \<open>addTransaction\<close>, \<open>tryDebitUser\<close> and \<open>creditPrize\<close> are modelled on a state of type
  \<open>ledger\<close>: every Prisma call is a function on that state that either fails with a
  \<open>db_error\<close> or returns the new state, and \<open>prisma.$transaction\<close> (\<open>run_tx\<close>) commits
  the state its body returns or, on a failure, rolls back to the state it started from.

  The journal's uniqueness constraint on \<open>(userId, matchId, type)\<close> lives in the Prisma
  schema, which is not part of the repository; it is modelled from the specification
  (\<open>same_key\<close>, \<open>tx_create\<close>) with PostgreSQL's reading of a unique index, under which
  rows whose \<open>matchId\<close> is NULL never collide.
\<close>

section \<open>State\<close>

datatype currency = Gems | BonusGems

record account =
  gemBalance :: int
  bonusGems :: int

record txn =
  tx_userId :: user_id
  tx_type :: string
  tx_amount :: int
  tx_currency :: currency
  tx_note :: "string option"
  tx_matchId :: "match_id option"
  tx_lobbyType :: "lobby_type option"

record ledger =
  accounts :: "user_id \<Rightarrow> account option"
  txns :: "txn list"

text \<open>\<open>P2002\<close> (unique constraint violated) and \<open>P2025\<close> (record to update not found).\<close>

datatype db_error = UniqueViolation | RecordNotFound

section \<open>Prisma operations\<close>

text \<open>Decimal rendering of a number inside a template literal.\<close>

fun show_nat :: "nat \<Rightarrow> string" where
  "show_nat n =
     (if n < 10 then [char_of (48 + n)] else show_nat (n div 10) @ [char_of (48 + n mod 10)])"

declare show_nat.simps [simp del]

definition show_int :: "int \<Rightarrow> string" where
  "show_int i = (if i < 0 then ''-'' @ show_nat (nat (- i)) else show_nat (nat i))"

text \<open>Two journal rows that the unique index on \<open>(userId, matchId, type)\<close> forbids.\<close>

definition same_key :: "txn \<Rightarrow> txn \<Rightarrow> bool" where
  "same_key t t' \<longleftrightarrow>
     tx_matchId t \<noteq> None \<and>
     tx_userId t' = tx_userId t \<and> tx_type t' = tx_type t \<and> tx_matchId t' = tx_matchId t"

text \<open>\<open>tx.transaction.create\<close>.\<close>

definition tx_create :: "txn \<Rightarrow> ledger \<Rightarrow> db_error + ledger" where
  "tx_create t l =
     (if list_ex (same_key t) (txns l) then Inl UniqueViolation
      else Inr (l\<lparr>txns := txns l @ [t]\<rparr>))"

text \<open>\<open>tx.user.update\<close> with \<open>increment\<close> on the two balances.\<close>

definition user_increment :: "user_id \<Rightarrow> int \<Rightarrow> int \<Rightarrow> ledger \<Rightarrow> db_error + ledger" where
  "user_increment u dGems dBonus l =
     (case accounts l u of
        None \<Rightarrow> Inl RecordNotFound
      | Some a \<Rightarrow> Inr (l\<lparr>accounts := (accounts l)(u \<mapsto>
                     a\<lparr>gemBalance := gemBalance a + dGems, bonusGems := bonusGems a + dBonus\<rparr>)\<rparr>))"

text \<open>\<open>prisma.$transaction(body)\<close>: commit or roll back.\<close>

definition run_tx :: "(ledger \<Rightarrow> db_error + ('a \<times> ledger)) \<Rightarrow> ledger \<Rightarrow> (db_error + 'a) \<times> ledger" where
  "run_tx body l = (case body l of Inl e \<Rightarrow> (Inl e, l) | Inr (r, l') \<Rightarrow> (Inr r, l'))"

section \<open>\<open>addTransaction\<close>, lines 52-95\<close>

definition add_body :: "txn \<Rightarrow> ledger \<Rightarrow> db_error + (txn \<times> ledger)" where
  "add_body t l =
     (case tx_create t l of
        Inl e \<Rightarrow> Inl e
      | Inr l1 \<Rightarrow>
          (let amount = tx_amount t in
           case (if tx_currency t = Gems then user_increment (tx_userId t) amount 0 l1
                 else user_increment (tx_userId t) 0 amount l1) of
             Inl e \<Rightarrow> Inl e
           | Inr l2 \<Rightarrow> Inr (t, l2)))"

text \<open>The row \<open>addTransaction\<close> creates (lines 64-74).\<close>

definition new_txn ::
  "user_id \<Rightarrow> string \<Rightarrow> int \<Rightarrow> currency \<Rightarrow> string option \<Rightarrow> match_id option \<Rightarrow> lobby_type option \<Rightarrow> txn" where
  "new_txn u ty amount cur note mid lt =
     \<lparr>tx_userId = u, tx_type = ty, tx_amount = amount, tx_currency = cur,
      tx_note = note, tx_matchId = mid, tx_lobbyType = lt\<rparr>"

definition addTransaction ::
  "user_id \<Rightarrow> string \<Rightarrow> int \<Rightarrow> currency \<Rightarrow> string option \<Rightarrow> match_id option \<Rightarrow>
   lobby_type option \<Rightarrow> ledger \<Rightarrow> (db_error + txn option) \<times> ledger" where
  "addTransaction u ty amount cur note mid lt l =
     (case run_tx (add_body (new_txn u ty amount cur note mid lt)) l of
           (Inr r, l') \<Rightarrow> (Inr (Some r), l')
         | (Inl UniqueViolation, l') \<Rightarrow> (Inr None, l')
         | (Inl e, l') \<Rightarrow> (Inl e, l'))"

section \<open>\<open>tryDebitUser\<close>, lines 108-172\<close>

definition entry_fee_note :: "int \<Rightarrow> int \<Rightarrow> string" where
  "entry_fee_note usedGems usedBonusGems =
     (if 0 < usedBonusGems
      then ''Match entry fee ('' @ show_int usedGems @ '' gems, '' @ show_int usedBonusGems @
           '' bonus gems)''
      else ''Match entry fee ('' @ show_int usedGems @ '' gems)'')"

text \<open>Gems first, then bonus gems (lines 119-125).\<close>

definition debit_split :: "account \<Rightarrow> int \<Rightarrow> int \<times> int" where
  "debit_split a amountGems =
     (let usedGems = min (gemBalance a) amountGems
      in (usedGems,
          if usedGems < amountGems then min (bonusGems a) (amountGems - usedGems) else 0))"

text \<open>The journal row of an entry fee (lines 134-147).\<close>

definition entry_fee_txn :: "user_id \<Rightarrow> match_id option \<Rightarrow> lobby_type option \<Rightarrow> int \<Rightarrow> int \<Rightarrow> txn" where
  "entry_fee_txn u mid lt usedGems usedBonusGems =
     \<lparr>tx_userId = u, tx_type = ''entryFee'', tx_amount = - (usedGems + usedBonusGems),
      tx_currency = Gems, tx_note = Some (entry_fee_note usedGems usedBonusGems),
      tx_matchId = mid, tx_lobbyType = lt\<rparr>"

definition debit_body ::
  "user_id \<Rightarrow> int \<Rightarrow> match_id option \<Rightarrow> lobby_type option \<Rightarrow> ledger \<Rightarrow> db_error + (bool \<times> ledger)" where
  "debit_body u amountGems mid lt l =
     (case accounts l u of
        None \<Rightarrow> Inr (False, l)
      | Some a \<Rightarrow>
          (let (usedGems, usedBonusGems) = debit_split a amountGems
           in if usedGems + usedBonusGems < amountGems then Inr (False, l)
              else
                (case tx_create (entry_fee_txn u mid lt usedGems usedBonusGems) l of
                   Inl e \<Rightarrow> Inl e
                 | Inr l1 \<Rightarrow>
                     (case user_increment u (- usedGems) (- usedBonusGems) l1 of
                        Inl e \<Rightarrow> Inl e
                      | Inr l2 \<Rightarrow> Inr (True, l2)))))"

definition tryDebitUser ::
  "user_id \<Rightarrow> int \<Rightarrow> match_id option \<Rightarrow> lobby_type option \<Rightarrow> ledger \<Rightarrow> bool \<times> ledger" where
  "tryDebitUser u amountGems mid lt l =
     (case run_tx (debit_body u amountGems mid lt) l of
        (Inr ok, l') \<Rightarrow> (ok, l')
      | (Inl UniqueViolation, l') \<Rightarrow> (True, l')
      | (Inl _, l') \<Rightarrow> (False, l'))"

section \<open>\<open>creditPrize\<close>, lines 175-212\<close>

definition ordinal_suffix :: "nat \<Rightarrow> string" where
  "ordinal_suffix place =
     (if place mod 10 = 1 \<and> place mod 100 \<noteq> 11 then ''st''
      else if place mod 10 = 2 \<and> place mod 100 \<noteq> 12 then ''nd''
      else if place mod 10 = 3 \<and> place mod 100 \<noteq> 13 then ''rd''
      else ''th'')"

definition creditPrize ::
  "user_id \<Rightarrow> int \<Rightarrow> lobby_type option \<Rightarrow> match_id option \<Rightarrow> nat option \<Rightarrow> ledger \<Rightarrow> ledger" where
  "creditPrize u amountGems lt mid placeOpt l =
     (if amountGems \<le> 0 then l
      else case accounts l u of
        None \<Rightarrow> l
      | Some _ \<Rightarrow>
          (let place = or_default placeOpt 1
           in snd (addTransaction u ''prize'' amountGems Gems
                    (Some (''Prize for '' @ show_nat place @ ordinal_suffix place @ '' place''))
                    mid lt l)))"

section \<open>Observations on the ledger\<close>

text \<open>The journal holds a row of type \<open>ty\<close> for user \<open>u\<close> and match \<open>m\<close>.\<close>

definition has_key :: "user_id \<Rightarrow> string \<Rightarrow> match_id \<Rightarrow> ledger \<Rightarrow> bool" where
  "has_key u ty m l \<longleftrightarrow>
     list_ex (\<lambda>t. tx_userId t = u \<and> tx_type t = ty \<and> tx_matchId t = Some m) (txns l)"

text \<open>A user's two balances together, and the sum of the user's journal rows.\<close>

definition balance_total :: "ledger \<Rightarrow> user_id \<Rightarrow> int" where
  "balance_total l u = (case accounts l u of None \<Rightarrow> 0 | Some a \<Rightarrow> gemBalance a + bonusGems a)"

definition journal_total :: "ledger \<Rightarrow> user_id \<Rightarrow> int" where
  "journal_total l u = sum_list (map tx_amount (filter (\<lambda>t. tx_userId t = u) (txns l)))"

text \<open>How far a user's balances are from the sum of the user's journal: the balance the
  account was created with, which the journal does not record.\<close>

definition journal_drift :: "ledger \<Rightarrow> user_id \<Rightarrow> int" where
  "journal_drift l u = balance_total l u - journal_total l u"

text \<open>The same per currency, for the gem balance and the rows booked in gems.\<close>

definition gem_drift :: "ledger \<Rightarrow> user_id \<Rightarrow> int" where
  "gem_drift l u =
     (case accounts l u of None \<Rightarrow> 0 | Some a \<Rightarrow> gemBalance a) -
     sum_list (map tx_amount (filter (\<lambda>t. tx_userId t = u \<and> tx_currency t = Gems) (txns l)))"

definition acct_nonneg :: "ledger \<Rightarrow> bool" where
  "acct_nonneg l \<longleftrightarrow> (\<forall>u a. accounts l u = Some a \<longrightarrow> 0 \<le> gemBalance a \<and> 0 \<le> bonusGems a)"

text \<open>Reading a string of decimal digits back as a number.\<close>

definition read_nat :: "string \<Rightarrow> nat" where
  "read_nat s = foldl (\<lambda>acc c. 10 * acc + (of_char c - 48)) 0 s"

text \<open>The journal only grows: every operation appends rows and never rewrites one.\<close>

definition grows :: "ledger \<Rightarrow> ledger \<Rightarrow> bool" where
  "grows l l' \<longleftrightarrow> (\<exists>ys. txns l' = txns l @ ys)"

text \<open>A ledger with two accounts and an empty journal, for the scenarios below.\<close>

definition demo_ledger :: ledger where
  "demo_ledger =
     \<lparr>accounts = [''alice'' \<mapsto> \<lparr>gemBalance = 100, bonusGems = 0\<rparr>,
                  ''bob'' \<mapsto> \<lparr>gemBalance = 50, bonusGems = 50\<rparr>],
      txns = []\<rparr>"

section \<open>Lemmas\<close>

lemma same_key_has_key:
  "tx_matchId t = Some m \<Longrightarrow> list_ex (same_key t) (txns l) \<longleftrightarrow> has_key (tx_userId t) (tx_type t) m l"
  by (auto simp: same_key_def has_key_def list_ex_iff)

lemma has_key_append [simp]:
  "has_key u ty m (l\<lparr>txns := txns l @ [t]\<rparr>) \<longleftrightarrow>
     has_key u ty m l \<or> (tx_userId t = u \<and> tx_type t = ty \<and> tx_matchId t = Some m)"
  by (auto simp: has_key_def)

lemma has_key_accounts [simp]: "has_key u ty m (l\<lparr>accounts := f\<rparr>) = has_key u ty m l"
  by (simp add: has_key_def)

lemma debit_split_bounds:
  assumes "debit_split a amount = (g, b)" "0 \<le> bonusGems a"
  shows "g \<le> gemBalance a" "b \<le> bonusGems a"
    "g + b < amount \<longleftrightarrow> gemBalance a + bonusGems a < amount"
    "g = min (gemBalance a) amount" "b = min (bonusGems a) (amount - min (gemBalance a) amount)"
  using assms by (auto simp: debit_split_def Let_def min_def split: if_splits)

text \<open>One committed journal row together with the balance change it describes.\<close>

definition book :: "user_id \<Rightarrow> account \<Rightarrow> txn \<Rightarrow> int \<Rightarrow> int \<Rightarrow> ledger \<Rightarrow> ledger" where
  "book u a t dg db l =
     l\<lparr>txns := txns l @ [t], accounts := (accounts l)(u \<mapsto>
        a\<lparr>gemBalance := gemBalance a + dg, bonusGems := bonusGems a + db\<rparr>)\<rparr>"

lemma journal_drift_book:
  assumes "accounts l u = Some a" "tx_userId t = u" "tx_amount t = dg + db"
  shows "journal_drift (book u a t dg db l) = journal_drift l"
  using assms by (auto simp: journal_drift_def balance_total_def journal_total_def book_def)

lemma debit_body_Inr:
  "debit_body u amount mid lt l = Inr (r, l2) \<Longrightarrow>
   (r = False \<and> l2 = l) \<or>
   (\<exists>a g b. r = True \<and> accounts l u = Some a \<and> debit_split a amount = (g, b) \<and>
      \<not> g + b < amount \<and> \<not> list_ex (same_key (entry_fee_txn u mid lt g b)) (txns l) \<and>
      l2 = book u a (entry_fee_txn u mid lt g b) (- g) (- b) l)"
  by (auto simp: debit_body_def tx_create_def user_increment_def book_def Let_def
      split: option.splits prod.splits if_splits sum.splits)

lemma debit_body_Inl:
  "debit_body u amount (Some m) lt l = Inl e \<Longrightarrow> e = UniqueViolation \<and> has_key u ''entryFee'' m l"
  by (auto simp: debit_body_def tx_create_def user_increment_def same_key_has_key entry_fee_txn_def
      Let_def split: option.splits prod.splits if_splits sum.splits)

lemma debit_body_dup:
  "has_key u ''entryFee'' m l \<Longrightarrow>
   debit_body u amount (Some m) lt l = Inr (False, l) \<or> debit_body u amount (Some m) lt l = Inl UniqueViolation"
  by (auto simp: debit_body_def tx_create_def same_key_has_key entry_fee_txn_def Let_def
      split: option.splits prod.splits)

lemma tryDebitUser_cases:
  "tryDebitUser u amount mid lt l = (r, l') \<Longrightarrow>
   (\<exists>e. debit_body u amount mid lt l = Inl e \<and> l' = l) \<or> debit_body u amount mid lt l = Inr (r, l')"
  by (auto simp: tryDebitUser_def run_tx_def split: sum.splits prod.splits db_error.splits)

lemma tryDebitUser_dup:
  "has_key u ''entryFee'' m l \<Longrightarrow> snd (tryDebitUser u amount (Some m) lt l) = l"
  using debit_body_dup [of u m l amount lt]
  by (auto simp: tryDebitUser_def run_tx_def)

lemma tryDebitUser_True_key:
  assumes "tryDebitUser u amount (Some m) lt l = (True, l1)"
  shows "has_key u ''entryFee'' m l1"
  using tryDebitUser_cases [OF assms]
proof
  assume "\<exists>e. debit_body u amount (Some m) lt l = Inl e \<and> l1 = l"
  then show ?thesis using debit_body_Inl by blast
next
  assume "debit_body u amount (Some m) lt l = Inr (True, l1)"
  then show ?thesis
    by (auto dest!: debit_body_Inr simp: book_def entry_fee_txn_def)
qed

lemma tryDebitUser_drift:
  "journal_drift (snd (tryDebitUser u amount mid lt l)) = journal_drift l"
proof -
  obtain r l' where rl: "tryDebitUser u amount mid lt l = (r, l')" by (cases "tryDebitUser u amount mid lt l")
  from tryDebitUser_cases [OF rl] have "l' = l \<or>
     (\<exists>a g b. accounts l u = Some a \<and> l' = book u a (entry_fee_txn u mid lt g b) (- g) (- b) l)"
    by (auto dest!: debit_body_Inr)
  then show ?thesis
    using rl journal_drift_book by (auto simp: entry_fee_txn_def)
qed

lemma add_body_Inr:
  "add_body t l = Inr (r, l2) \<Longrightarrow>
   \<exists>a. accounts l (tx_userId t) = Some a \<and> \<not> list_ex (same_key t) (txns l) \<and>
       l2 = book (tx_userId t) a t (if tx_currency t = Gems then tx_amount t else 0)
              (if tx_currency t = Gems then 0 else tx_amount t) l"
  by (auto simp: add_body_def tx_create_def user_increment_def book_def Let_def
      split: option.splits if_splits sum.splits)

lemma addTransaction_state:
  "snd (addTransaction u ty amount cur note mid lt l) = l \<or>
   (\<exists>a. accounts l u = Some a \<and>
      snd (addTransaction u ty amount cur note mid lt l) =
        book u a (new_txn u ty amount cur note mid lt)
          (if cur = Gems then amount else 0) (if cur = Gems then 0 else amount) l)"
  using add_body_Inr [of "new_txn u ty amount cur note mid lt" l]
  by (auto simp: addTransaction_def run_tx_def new_txn_def
      split: sum.splits prod.splits db_error.splits)

lemma addTransaction_key:
  assumes "accounts l u \<noteq> None"
  shows "has_key u ty m (snd (addTransaction u ty amount cur note (Some m) lt l))"
  using assms
  by (auto simp: addTransaction_def run_tx_def add_body_def tx_create_def user_increment_def
      same_key_has_key new_txn_def Let_def split: option.splits sum.splits)

lemma addTransaction_dup:
  "has_key u ty m l \<Longrightarrow> snd (addTransaction u ty amount cur note (Some m) lt l) = l"
  by (auto simp: addTransaction_def run_tx_def add_body_def tx_create_def same_key_has_key
      new_txn_def Let_def)

lemma acct_nonneg_book:
  "acct_nonneg l \<Longrightarrow> 0 \<le> gemBalance a + dg \<Longrightarrow> 0 \<le> bonusGems a + db \<Longrightarrow>
   acct_nonneg (book u a t dg db l)"
  by (simp add: acct_nonneg_def book_def)

lemma creditPrize_state:
  "creditPrize u amount lt mid p l = l \<or>
   (\<exists>a nt. 0 < amount \<and> accounts l u = Some a \<and>
      creditPrize u amount lt mid p l = book u a (new_txn u ''prize'' amount Gems nt mid lt) amount 0 l)"
proof (cases "amount \<le> 0 \<or> accounts l u = None")
  case True
  then show ?thesis by (auto simp: creditPrize_def)
next
  case False
  then obtain a where a: "accounts l u = Some a" "0 < amount" by auto
  define nt where "nt = Some (''Prize for '' @ show_nat (or_default p 1) @
                              ordinal_suffix (or_default p 1) @ '' place'')"
  have c: "creditPrize u amount lt mid p l = snd (addTransaction u ''prize'' amount Gems nt mid lt l)"
    using a by (simp add: creditPrize_def nt_def Let_def)
  show ?thesis
    using addTransaction_state [of u "''prize''" amount Gems nt mid lt l] a unfolding c by auto
qed

text \<open>A positive prize for an existing account whose key is not yet in the journal is
  booked: one prize row and the amount added to the gem balance.\<close>

lemma creditPrize_fresh:
  assumes "accounts l u = Some a" "0 < amount" "\<not> has_key u ''prize'' m l"
  shows "\<exists>nt. creditPrize u amount lt (Some m) p l = book u a (new_txn u ''prize'' amount Gems nt (Some m) lt) amount 0 l"
  using assms same_key_has_key [of "new_txn u ''prize'' amount Gems _ (Some m) lt" m l]
  by (auto simp: creditPrize_def Let_def addTransaction_def run_tx_def add_body_def tx_create_def
      user_increment_def new_txn_def book_def)

lemma creditPrize_drift:
  "journal_drift (creditPrize u amount lt mid p l) = journal_drift l"
  using creditPrize_state [of u amount lt mid p l] journal_drift_book by (auto simp: new_txn_def)

lemma read_nat_snoc_digit:
  "d < 10 \<Longrightarrow> read_nat (s @ [char_of (48 + d)]) = 10 * read_nat s + d"
  by (simp add: read_nat_def of_char_of)

text \<open>Rows once written stay: whatever happens to the balances, an idempotency key
  recorded in the journal is still there after any later operation.\<close>

lemma grows_refl [simp]: "grows l l"
  by (simp add: grows_def)

lemma grows_trans: "grows l1 l2 \<Longrightarrow> grows l2 l3 \<Longrightarrow> grows l1 l3"
  by (auto simp: grows_def)

lemma grows_book [simp]: "grows l (book u a t dg db l)"
  by (simp add: grows_def book_def)

lemma has_key_grows: "has_key u ty m l \<Longrightarrow> grows l l' \<Longrightarrow> has_key u ty m l'"
  by (auto simp: has_key_def grows_def)

lemma tryDebitUser_grows: "grows l (snd (tryDebitUser u amount mid lt l))"
proof -
  obtain r l' where rl: "tryDebitUser u amount mid lt l = (r, l')" by (cases "tryDebitUser u amount mid lt l")
  from tryDebitUser_cases [OF rl] have "l' = l \<or> (\<exists>a t g b. l' = book u a t g b l)"
  proof
    assume "debit_body u amount mid lt l = Inr (r, l')"
    from debit_body_Inr [OF this] show ?thesis by blast
  qed blast
  then show ?thesis using rl by auto
qed

lemma creditPrize_grows: "grows l (creditPrize u amount lt mid p l)"
  using creditPrize_state [of u amount lt mid p l] by (elim disjE exE conjE) simp_all

lemmas ledger_eval_defs = demo_ledger_def tryDebitUser_def run_tx_def debit_body_def debit_split_def
  tx_create_def user_increment_def entry_fee_txn_def same_key_def Let_def

lemma demo_alice_debit:
  "tryDebitUser ''alice'' 100 (Some ''m1'') (Some ''classic'') demo_ledger =
   (True, snd (tryDebitUser ''alice'' 100 (Some ''m1'') (Some ''classic'') demo_ledger))"
  by (simp add: ledger_eval_defs)

lemma tryDebitUser_short:
  assumes "accounts l u = Some a" "0 \<le> bonusGems a" "gemBalance a + bonusGems a < amount"
  shows "tryDebitUser u amount mid lt l = (False, l)"
proof -
  obtain g b where gb: "debit_split a amount = (g, b)" by (cases "debit_split a amount")
  have "g + b < amount" using debit_split_bounds(3) [OF gb assms(2)] assms(3) by simp
  then show ?thesis using assms(1) gb by (simp add: tryDebitUser_def run_tx_def debit_body_def)
qed

lemma tryDebitUser_paid:
  assumes "accounts l u = Some a" "\<not> has_key u ''entryFee'' m l" "0 \<le> bonusGems a"
    "amount \<le> gemBalance a + bonusGems a"
  shows "\<exists>g b. debit_split a amount = (g, b) \<and> g + b = amount \<and>
           tryDebitUser u amount (Some m) lt l = (True, book u a (entry_fee_txn u (Some m) lt g b) (- g) (- b) l)"
proof -
  obtain g b where gb: "debit_split a amount = (g, b)" by (cases "debit_split a amount")
  note bnd = debit_split_bounds [OF gb assms(3)]
  have nk: "\<not> list_ex (same_key (entry_fee_txn u (Some m) lt g b)) (txns l)"
    using assms(2) by (simp add: same_key_has_key entry_fee_txn_def)
  have "g + b = amount" using bnd assms(4) by (auto simp: min_def)
  moreover have "tryDebitUser u amount (Some m) lt l = (True, book u a (entry_fee_txn u (Some m) lt g b) (- g) (- b) l)"
    using assms(1) gb bnd(3) assms(4) nk
    by (simp add: tryDebitUser_def run_tx_def debit_body_def tx_create_def user_increment_def book_def)
  ultimately show ?thesis using gb by blast
qed

lemma demo_accounts:
  "accounts demo_ledger ''alice'' = Some \<lparr>gemBalance = 100, bonusGems = 0\<rparr>"
  "accounts demo_ledger ''bob'' = Some \<lparr>gemBalance = 50, bonusGems = 50\<rparr>"
  "\<not> has_key u ty m demo_ledger"
  by (simp_all add: demo_ledger_def has_key_def)

section \<open>Properties\<close>

text \<open>C4: Two debit attempts with the same user and match: once the first has succeeded, a second \<open>tryDebitUser\<close> for that user and match, whatever its amount, leaves the ledger unchanged, so the balance is decremented exactly once (specification, section 8).\<close>

theorem tryDebitUser_idempotent:
  "tryDebitUser u amount (Some m) lt l = (True, l1) \<Longrightarrow> snd (tryDebitUser u amount' (Some m) lt' l1) = l1"
  by (rule tryDebitUser_dup [OF tryDebitUser_True_key])

text \<open>A first debit for a user and match succeeds exactly when the two balances together cover the amount, and then takes the gems first and the rest from the bonus gems; otherwise it changes nothing.\<close>

theorem tryDebitUser_fresh:
  assumes "accounts l u = Some a" "\<not> has_key u ''entryFee'' m l" "0 \<le> bonusGems a"
  shows "fst (tryDebitUser u amount (Some m) lt l) = (amount \<le> gemBalance a + bonusGems a) \<and>
         accounts (snd (tryDebitUser u amount (Some m) lt l)) u =
           Some (if amount \<le> gemBalance a + bonusGems a
                 then a\<lparr>gemBalance := gemBalance a - min (gemBalance a) amount,
                        bonusGems := bonusGems a - min (bonusGems a) (amount - min (gemBalance a) amount)\<rparr>
                 else a)"
proof -
  obtain g b where gb: "debit_split a amount = (g, b)" by (cases "debit_split a amount")
  note bnd = debit_split_bounds [OF gb assms(3)]
  have nk: "\<not> list_ex (same_key (entry_fee_txn u (Some m) lt g b)) (txns l)"
    using assms(2) by (simp add: same_key_has_key entry_fee_txn_def)
  show ?thesis
    using assms(1) gb bnd nk
    by (auto simp: tryDebitUser_def run_tx_def debit_body_def tx_create_def user_increment_def)
qed

text \<open>C35: A retried debit is refused when what is left no longer covers the fee: for any account whose two balances cover one fee but not two, the first debit for a match succeeds and records the fee, and the same debit again returns false although the fee for that match was captured, because the sufficiency check of lines 119-129 runs before the duplicate-key check of line 134. A join whose save failed after the debit is then answered 402 on retry.\<close>

theorem tryDebitUser_retry_refused:
  assumes "accounts l u = Some a" "\<not> has_key u ''entryFee'' m l" "0 \<le> bonusGems a"
    "amount \<le> gemBalance a + bonusGems a" "gemBalance a + bonusGems a < 2 * amount"
  shows "fst (tryDebitUser u amount (Some m) lt l) \<and>
         has_key u ''entryFee'' m (snd (tryDebitUser u amount (Some m) lt l)) \<and>
         \<not> fst (tryDebitUser u amount (Some m) lt' (snd (tryDebitUser u amount (Some m) lt l)))"
proof -
  obtain g b where gb: "debit_split a amount = (g, b)" and s: "g + b = amount"
    and d: "tryDebitUser u amount (Some m) lt l = (True, book u a (entry_fee_txn u (Some m) lt g b) (- g) (- b) l)"
    using tryDebitUser_paid [OF assms(1-4)] by blast
  define a1 where "a1 = a\<lparr>gemBalance := gemBalance a + - g, bonusGems := bonusGems a + - b\<rparr>"
  have acc: "accounts (book u a (entry_fee_txn u (Some m) lt g b) (- g) (- b) l) u = Some a1"
    by (simp add: book_def a1_def)
  have "0 \<le> bonusGems a1" "gemBalance a1 + bonusGems a1 < amount"
    using debit_split_bounds [OF gb assms(3)] s assms(5) by (simp_all add: a1_def)
  from tryDebitUser_short [OF acc this, of "Some m" lt'] show ?thesis
    using d by (simp add: book_def entry_fee_txn_def has_key_def)
qed

text \<open>Debits and prize credits keep every user's balances in step with the journal: the difference between a user's two balances together and the sum of the user's journal rows does not change.\<close>

theorem ledger_ops_drift:
  "journal_drift (snd (tryDebitUser u amount mid lt l)) = journal_drift l \<and>
   journal_drift (creditPrize u c lt mid p l) = journal_drift l"
  using tryDebitUser_drift creditPrize_drift by simp

text \<open>C36: The journal row of an entry fee is booked entirely in gems (line 139) even when bonus gems paid part of it, so the gem balance and the gem rows of the journal drift apart by exactly the bonus part: for every first debit that the gems alone do not cover, the difference between the gem balance and the sum of the user's gem rows grows by the amount taken from the bonus gems.\<close>

theorem tryDebitUser_gem_journal:
  assumes "accounts l u = Some a" "\<not> has_key u ''entryFee'' m l" "0 \<le> gemBalance a" "0 \<le> bonusGems a"
    "gemBalance a < amount" "amount \<le> gemBalance a + bonusGems a"
  shows "gem_drift (snd (tryDebitUser u amount (Some m) lt l)) u = gem_drift l u + (amount - gemBalance a)"
proof -
  obtain g b where gb: "debit_split a amount = (g, b)" and s: "g + b = amount"
    and d: "tryDebitUser u amount (Some m) lt l = (True, book u a (entry_fee_txn u (Some m) lt g b) (- g) (- b) l)"
    using tryDebitUser_paid [OF assms(1,2,4,6)] by blast
  have "g = gemBalance a" using debit_split_bounds(4) [OF gb assms(4)] assms(5) by simp
  then show ?thesis using d s assms(1)
    by (simp add: gem_drift_def book_def entry_fee_txn_def)
qed


text \<open>C19: A prize credit for a user and match is applied at most once: after a positive credit to an existing account, every further \<open>creditPrize\<close> for the same user and match leaves the ledger unchanged.\<close>

theorem creditPrize_idempotent:
  assumes "0 < amount" "accounts l u \<noteq> None"
  shows "creditPrize u amount' lt' (Some m) p' (creditPrize u amount lt (Some m) p l) =
         creditPrize u amount lt (Some m) p l"
proof -
  have k: "has_key u ''prize'' m (creditPrize u amount lt (Some m) p l)"
    using assms addTransaction_key by (auto simp: creditPrize_def Let_def)
  then show ?thesis
    by (auto simp: creditPrize_def Let_def addTransaction_dup split: option.splits)
qed

text \<open>Debits and prize credits keep every account's gem and bonus-gem balances nonnegative.\<close>

theorem ledger_ops_nonneg:
  assumes "acct_nonneg l"
  shows "acct_nonneg (snd (tryDebitUser u amount mid lt l)) \<and> acct_nonneg (creditPrize u c lt mid p l)"
proof
  obtain r l' where rl: "tryDebitUser u amount mid lt l = (r, l')" by (cases "tryDebitUser u amount mid lt l")
  from tryDebitUser_cases [OF rl] have "l' = l \<or>
     (\<exists>a g b. accounts l u = Some a \<and> debit_split a amount = (g, b) \<and>
        l' = book u a (entry_fee_txn u mid lt g b) (- g) (- b) l)"
    by (auto dest!: debit_body_Inr)
  then show "acct_nonneg (snd (tryDebitUser u amount mid lt l))"
  proof
    assume "\<exists>a g b. accounts l u = Some a \<and> debit_split a amount = (g, b) \<and>
        l' = book u a (entry_fee_txn u mid lt g b) (- g) (- b) l"
    then obtain a g b where a: "accounts l u = Some a" "debit_split a amount = (g, b)"
      and l': "l' = book u a (entry_fee_txn u mid lt g b) (- g) (- b) l" by blast
    have "0 \<le> bonusGems a" using assms a(1) by (auto simp: acct_nonneg_def)
    from debit_split_bounds [OF a(2) this] show ?thesis
      using acct_nonneg_book [OF assms] rl l' by simp
  qed (use rl assms in simp)
next
  show "acct_nonneg (creditPrize u c lt mid p l)"
    using creditPrize_state [of u c lt mid p l]
  proof
    assume "\<exists>a nt. 0 < c \<and> accounts l u = Some a \<and>
      creditPrize u c lt mid p l = book u a (new_txn u ''prize'' c Gems nt mid lt) c 0 l"
    then obtain a nt where a: "0 < c" "accounts l u = Some a"
      and eq: "creditPrize u c lt mid p l = book u a (new_txn u ''prize'' c Gems nt mid lt) c 0 l"
      by blast
    have "0 \<le> gemBalance a + c" "0 \<le> bonusGems a + 0"
      using assms a by (auto simp: acct_nonneg_def)
    from acct_nonneg_book [OF assms this] show ?thesis unfolding eq .
  qed (use assms in simp)
qed

text \<open>The decimal rendering of a number in the journal notes reads back as that number.\<close>

theorem show_nat_roundtrip: "read_nat (show_nat n) = n"
proof (induction n rule: show_nat.induct)
  case (1 n)
  show ?case
  proof (cases "n < 10")
    case True
    then show ?thesis
      using read_nat_snoc_digit [of n "[]"] by (simp add: show_nat.simps [of n] read_nat_def)
  next
    case False
    then have "read_nat (show_nat (n div 10)) = n div 10" using 1 by simp
    then show ?thesis using False read_nat_snoc_digit [of "n mod 10" "show_nat (n div 10)"]
      by (simp add: show_nat.simps [of n])
  qed
qed

section \<open>Witnesses\<close>

theorem tryDebitUser_idempotent_witness:
  "snd (tryDebitUser ''alice'' 50 (Some ''m1'') None
          (snd (tryDebitUser ''alice'' 100 (Some ''m1'') (Some ''classic'') demo_ledger))) =
   snd (tryDebitUser ''alice'' 100 (Some ''m1'') (Some ''classic'') demo_ledger)"
  using tryDebitUser_idempotent [OF demo_alice_debit] .

theorem tryDebitUser_fresh_witness:
  "fst (tryDebitUser ''bob'' 100 (Some ''m1'') None demo_ledger) \<and>
   accounts (snd (tryDebitUser ''bob'' 100 (Some ''m1'') None demo_ledger)) ''bob'' =
     Some \<lparr>gemBalance = 0, bonusGems = 0\<rparr>"
  using tryDebitUser_fresh [where l = demo_ledger and u = "''bob''" and m = "''m1''" and
      a = "\<lparr>gemBalance = 50, bonusGems = 50\<rparr>" and amount = 100 and lt = None]
  by (simp add: demo_ledger_def has_key_def)

theorem creditPrize_idempotent_witness:
  "creditPrize ''bob'' 30 None (Some ''m1'') (Some 2)
     (creditPrize ''bob'' 225 (Some ''classic'') (Some ''m1'') (Some 1) demo_ledger) =
   creditPrize ''bob'' 225 (Some ''classic'') (Some ''m1'') (Some 1) demo_ledger"
  using creditPrize_idempotent [where amount = 225 and l = demo_ledger and u = "''bob''" and
      amount' = 30 and lt' = None and m = "''m1''" and p' = "Some 2" and lt = "Some ''classic''" and
      p = "Some 1"]
  by (simp add: demo_ledger_def)

theorem ledger_ops_nonneg_witness:
  "acct_nonneg (snd (tryDebitUser ''bob'' 100 (Some ''m1'') None demo_ledger)) \<and>
   acct_nonneg (creditPrize ''alice'' 225 None (Some ''m1'') (Some 1) demo_ledger)"
proof -
  have "acct_nonneg demo_ledger" by (simp add: acct_nonneg_def demo_ledger_def)
  from ledger_ops_nonneg [OF this] show ?thesis by blast
qed

theorem tryDebitUser_retry_refused_witness:
  "accounts demo_ledger ''alice'' = Some \<lparr>gemBalance = 100, bonusGems = 0\<rparr> \<and>
   \<not> has_key ''alice'' ''entryFee'' ''m1'' demo_ledger \<and>
   fst (tryDebitUser ''alice'' 100 (Some ''m1'') (Some ''classic'') demo_ledger) \<and>
   has_key ''alice'' ''entryFee'' ''m1'' (snd (tryDebitUser ''alice'' 100 (Some ''m1'') (Some ''classic'') demo_ledger)) \<and>
   \<not> fst (tryDebitUser ''alice'' 100 (Some ''m1'') (Some ''classic'')
          (snd (tryDebitUser ''alice'' 100 (Some ''m1'') (Some ''classic'') demo_ledger)))"
  using tryDebitUser_retry_refused [where amount = 100 and lt = "Some ''classic''" and lt' = "Some ''classic''",
      OF demo_accounts(1) demo_accounts(3)]
    demo_accounts by simp

theorem tryDebitUser_gem_journal_witness:
  "accounts demo_ledger ''bob'' = Some \<lparr>gemBalance = 50, bonusGems = 50\<rparr> \<and>
   \<not> has_key ''bob'' ''entryFee'' ''m1'' demo_ledger \<and>
   gem_drift (snd (tryDebitUser ''bob'' 100 (Some ''m1'') (Some ''classic'') demo_ledger)) ''bob'' =
   gem_drift demo_ledger ''bob'' + 50"
  using tryDebitUser_gem_journal [where amount = 100 and lt = "Some ''classic''", OF demo_accounts(2) demo_accounts(3)]
    demo_accounts by simp

end
