(* ===== verification/Store.thy ===== *)
theory Store
  imports MatchState "HOL-Library.AList"
begin

text \<open>
  The match store of src/backend/src/repositories/redisMatchRepository.ts, the only
  implementation of the \<open>MatchRepository\<close> interface. Its Redis keys become three
  fields of a record: \<open>match:<id>\<close> holds a match document (\<open>st_matches\<close>, an
  association list kept in insertion order, which is the order \<open>listAll\<close> reports;
  Redis \<open>SCAN\<close> promises no order, so every property below holds for every order of
  the list), \<open>user:<id>:matches\<close> holds the set of match ids a user was saved into
  (\<open>st_userIndex\<close>, a list without duplicates, in insertion order) and
  \<open>lobby:<lobby>:waiting\<close> holds the waiting pointer of a lobby (\<open>st_waiting\<close>).

  A document is stored as \<open>JSON.stringify(match)\<close> and read back with \<open>JSON.parse\<close>; on
  the fields of \<open>InternalMatch\<close> (strings, numbers, booleans, arrays and absent optional
  fields) the round trip is the identity, so the model stores the record itself. The
  one-hour expiry that \<open>save\<close> puts on a completed match is a timer of the server and is
  not modelled: a completed match stays until \<open>remove\<close>.
\<close>

section \<open>State and operations\<close>

record store =
  st_matches :: "(match_id \<times> internal_match) list"
  st_userIndex :: "user_id \<Rightarrow> match_id list"
  st_waiting :: "lobby_type \<Rightarrow> match_id option"

definition empty_store :: store where
  "empty_store = \<lparr>st_matches = [], st_userIndex = (\<lambda>_. []), st_waiting = (\<lambda>_. None)\<rparr>"

text \<open>\<open>SADD\<close> and \<open>SREM\<close> on a set of match ids.\<close>

definition sadd :: "match_id \<Rightarrow> match_id list \<Rightarrow> match_id list" where
  "sadd x xs = (if x \<in> set xs then xs else xs @ [x])"

definition srem :: "match_id \<Rightarrow> match_id list \<Rightarrow> match_id list" where
  "srem x xs = removeAll x xs"

text \<open>\<open>getWaiting\<close>, \<open>setWaiting\<close>, \<open>clearWaiting\<close> (lines 22-37).\<close>

definition getWaiting :: "store \<Rightarrow> lobby_type \<Rightarrow> match_id option" where
  "getWaiting st lobby = st_waiting st lobby"

definition setWaiting :: "lobby_type \<Rightarrow> match_id \<Rightarrow> store \<Rightarrow> store" where
  "setWaiting lobby mid st = st\<lparr>st_waiting := (st_waiting st)(lobby \<mapsto> mid)\<rparr>"

definition clearWaiting :: "lobby_type \<Rightarrow> store \<Rightarrow> store" where
  "clearWaiting lobby st = st\<lparr>st_waiting := (st_waiting st)(lobby := None)\<rparr>"

text \<open>\<open>get\<close> (lines 39-50).\<close>

definition repo_get :: "store \<Rightarrow> match_id \<Rightarrow> internal_match option" where
  "repo_get st mid = map_of (st_matches st) mid"

text \<open>The loop of \<open>save\<close> over the players (lines 59-63): \<open>SADD user:<id>:matches\<close> for
  every player with a nonempty id.\<close>

definition index_players :: "player list \<Rightarrow> match_id \<Rightarrow> (user_id \<Rightarrow> match_id list) \<Rightarrow> user_id \<Rightarrow> match_id list" where
  "index_players ps mid idx =
     fold (\<lambda>p idx. if player_id p \<noteq> [] then idx(player_id p := sadd mid (idx (player_id p))) else idx) ps idx"

text \<open>\<open>save\<close> (lines 52-64).\<close>

definition repo_save :: "internal_match \<Rightarrow> store \<Rightarrow> store" where
  "repo_save m st =
     st\<lparr>st_matches := AList.update (match_id m) m (st_matches st),
        st_userIndex := index_players (players m) (match_id m) (st_userIndex st)\<rparr>"

text \<open>\<open>listByUser\<close> (lines 66-84): the user's match ids, fetched with \<open>MGET\<close>, the missing
  ones dropped.\<close>

definition listByUser :: "store \<Rightarrow> user_id \<Rightarrow> internal_match list" where
  "listByUser st u = List.map_filter (map_of (st_matches st)) (st_userIndex st u)"

text \<open>\<open>listAll\<close> (lines 86-109): every stored match.\<close>

definition listAll :: "store \<Rightarrow> internal_match list" where
  "listAll st = map snd (st_matches st)"

text \<open>The loop of \<open>remove\<close> over the stored players (lines 122-126).\<close>

definition unindex_players :: "player list \<Rightarrow> match_id \<Rightarrow> (user_id \<Rightarrow> match_id list) \<Rightarrow> user_id \<Rightarrow> match_id list" where
  "unindex_players ps mid idx =
     fold (\<lambda>p idx. if player_id p \<noteq> [] then idx(player_id p := srem mid (idx (player_id p))) else idx) ps idx"

text \<open>\<open>remove\<close> (lines 113-133).\<close>

definition repo_remove :: "match_id \<Rightarrow> store \<Rightarrow> store" where
  "repo_remove mid st =
     (case map_of (st_matches st) mid of
        Some m \<Rightarrow> st\<lparr>st_matches := AList.delete mid (st_matches st),
                    st_userIndex := unindex_players (players m) mid (st_userIndex st)\<rparr>
      | None \<Rightarrow> st\<lparr>st_matches := AList.delete mid (st_matches st)\<rparr>)"

section \<open>Invariant\<close>

text \<open>Every stored document sits under its own id, once, and every player of it with a
  nonempty id has that id in its user index.\<close>

definition index_ok :: "store \<Rightarrow> bool" where
  "index_ok st \<longleftrightarrow>
     distinct (map fst (st_matches st)) \<and>
     list_all (\<lambda>(mid, m). match_id m = mid \<and>
                 list_all (\<lambda>p. player_id p \<noteq> [] \<longrightarrow> mid \<in> set (st_userIndex st (player_id p))) (players m))
       (st_matches st)"

text \<open>A waiting match with one player, for the scenarios below.\<close>

definition demo_match :: internal_match where
  "demo_match =
     \<lparr>match_id = ''classic-1'', lobbyType = ''classic'', match_board = [[''C'', ''A''], [''T'', ''S'']],
      createdAt = 0, startedAt = None, endedAt = None, entryFee = 100, prizePool = 500,
      gameDuration = 120, players = [new_player ''alice'' ''Alice'' 0 120000 True],
      status = Waiting, autoCompleteAt = 3600000, payoutAt = None\<rparr>"

section \<open>Lemmas\<close>

lemma set_sadd [simp]: "set (sadd x xs) = insert x (set xs)"
  by (auto simp: sadd_def)

lemma set_srem [simp]: "set (srem x xs) = set xs - {x}"
  by (simp add: srem_def)

lemma index_players_mono:
  "set (idx u) \<subseteq> set (index_players ps mid idx u)"
  unfolding index_players_def
  by (induction ps arbitrary: idx) (auto, (metis (no_types, lifting) fun_upd_apply insertI2 set_sadd subsetD)+)

lemma index_players_mem:
  "p \<in> set ps \<Longrightarrow> player_id p \<noteq> [] \<Longrightarrow> mid \<in> set (index_players ps mid idx (player_id p))"
proof (induction ps arbitrary: idx)
  case Nil
  then show ?case by simp
next
  case (Cons q ps)
  show ?case
  proof (cases "p = q")
    case True
    then show ?thesis using Cons.prems
        index_players_mono [of "(if player_id q \<noteq> [] then idx(player_id q := sadd mid (idx (player_id q))) else idx)"
          "player_id p" ps mid]
      by (auto simp: index_players_def)
  next
    case False
    then show ?thesis using Cons by (simp add: index_players_def)
  qed
qed

lemma unindex_players_keep:
  "x \<in> set (idx u) \<Longrightarrow> x \<noteq> mid \<Longrightarrow> x \<in> set (unindex_players ps mid idx u)"
proof (induction ps arbitrary: idx)
  case Nil
  then show ?case by (simp add: unindex_players_def)
next
  case (Cons q ps)
  let ?idx = "if player_id q \<noteq> [] then idx(player_id q := srem mid (idx (player_id q))) else idx"
  have "x \<in> set (?idx u)" using Cons.prems by auto
  then have "x \<in> set (unindex_players ps mid ?idx u)" using Cons.IH Cons.prems(2) by blast
  then show ?case by (simp only: unindex_players_def fold_Cons comp_apply)
qed

lemma index_ok_iff:
  "index_ok st \<longleftrightarrow> distinct (map fst (st_matches st)) \<and>
     (\<forall>mid m. (mid, m) \<in> set (st_matches st) \<longrightarrow> match_id m = mid \<and>
        (\<forall>p \<in> set (players m). player_id p \<noteq> [] \<longrightarrow> mid \<in> set (st_userIndex st (player_id p))))"
  by (auto simp: index_ok_def list_all_iff)

lemma index_ok_D:
  "index_ok st \<Longrightarrow> (mid, m) \<in> set (st_matches st) \<Longrightarrow>
   match_id m = mid \<and> (\<forall>p \<in> set (players m). player_id p \<noteq> [] \<longrightarrow> mid \<in> set (st_userIndex st (player_id p)))"
  by (simp add: index_ok_iff)

lemma repo_save_index_ok:
  assumes ok: "index_ok st"
  shows "index_ok (repo_save m st)"
proof -
  have d: "distinct (map fst (st_matches (repo_save m st)))"
    using ok by (simp add: index_ok_iff repo_save_def distinct_update)
  have e: "\<forall>mid m'. (mid, m') \<in> set (st_matches (repo_save m st)) \<longrightarrow> match_id m' = mid \<and>
      (\<forall>p\<in>set (players m'). player_id p \<noteq> [] \<longrightarrow> mid \<in> set (st_userIndex (repo_save m st) (player_id p)))"
  proof (intro allI impI)
    fix mid m'
    assume mem: "(mid, m') \<in> set (st_matches (repo_save m st))"
    then have "(mid, m') = (match_id m, m) \<or> (mid, m') \<in> set (st_matches st)"
      using set_alist_update [of "(mid, m')" "match_id m" m "st_matches st"] by (simp add: repo_save_def)
    then show "match_id m' = mid \<and>
        (\<forall>p\<in>set (players m'). player_id p \<noteq> [] \<longrightarrow> mid \<in> set (st_userIndex (repo_save m st) (player_id p)))"
    proof
      assume "(mid, m') = (match_id m, m)"
      then show ?thesis by (auto simp: repo_save_def index_players_mem)
    next
      assume "(mid, m') \<in> set (st_matches st)"
      then show ?thesis using index_ok_D [OF ok] index_players_mono by (fastforce simp: repo_save_def)
    qed
  qed
  show ?thesis using d e by (simp add: index_ok_iff)
qed

lemma repo_remove_index_ok:
  assumes ok: "index_ok st"
  shows "index_ok (repo_remove mid st)"
proof -
  have d: "distinct (map fst (st_matches (repo_remove mid st)))"
    using ok by (simp add: index_ok_iff repo_remove_def distinct_delete split: option.splits)
  have e: "\<forall>mid' m'. (mid', m') \<in> set (st_matches (repo_remove mid st)) \<longrightarrow> match_id m' = mid' \<and>
      (\<forall>p\<in>set (players m'). player_id p \<noteq> [] \<longrightarrow> mid' \<in> set (st_userIndex (repo_remove mid st) (player_id p)))"
  proof (intro allI impI)
    fix mid' m'
    assume "(mid', m') \<in> set (st_matches (repo_remove mid st))"
    then have mem: "(mid', m') \<in> set (st_matches st)" and ne: "mid' \<noteq> mid"
      using set_alist_delete [of "(mid', m')" mid "st_matches st"]
      by (auto simp: repo_remove_def split: option.splits)
    show "match_id m' = mid' \<and>
        (\<forall>p\<in>set (players m'). player_id p \<noteq> [] \<longrightarrow> mid' \<in> set (st_userIndex (repo_remove mid st) (player_id p)))"
      using index_ok_D [OF ok mem] ne unindex_players_keep
      by (fastforce simp: repo_remove_def split: option.splits)
  qed
  show ?thesis using d e by (simp add: index_ok_iff)
qed

lemma repo_get_save: "repo_get (repo_save m st) x = (if x = match_id m then Some m else repo_get st x)"
  by (simp add: repo_get_def repo_save_def update_conv')

lemma repo_get_remove: "repo_get (repo_remove mid st) x = (if x = mid then None else repo_get st x)"
  by (simp add: repo_get_def repo_remove_def delete_conv' split: option.splits)

lemma listByUser_sound: "m \<in> set (listByUser st u) \<Longrightarrow> m \<in> set (listAll st)"
  by (force simp: listByUser_def listAll_def map_filter_def dest: map_of_SomeD)

lemma listByUser_complete:
  assumes "index_ok st" "m \<in> set (listAll st)" "find_player m u \<noteq> None" "u \<noteq> []"
  shows "m \<in> set (listByUser st u)"
proof -
  obtain mid where mem: "(mid, m) \<in> set (st_matches st)" using assms(2) by (auto simp: listAll_def)
  obtain p where p: "p \<in> set (players m)" "player_id p = u"
    using assms(3) find_player_Some by (cases "find_player m u") auto
  have "distinct (map fst (st_matches st))" "mid \<in> set (st_userIndex st u)"
    using assms(1,4) mem p by (auto simp: index_ok_iff)
  moreover have "map_of (st_matches st) mid = Some m"
    using calculation(1) mem by (rule map_of_is_SomeI)
  ultimately show ?thesis by (force simp: listByUser_def map_filter_def)
qed

lemma empty_store_index_ok: "index_ok empty_store"
  by (simp add: index_ok_def empty_store_def)

text \<open>The documents \<open>listAll\<close> returns after a save, a removal or a change of the
  waiting pointer.\<close>

lemma listAll_mem_iff: "m \<in> set (listAll st) \<longleftrightarrow> (\<exists>mid. (mid, m) \<in> set (st_matches st))"
  by (force simp: listAll_def)

lemma listAll_save:
  assumes "index_ok st"
  shows "set (listAll (repo_save m st)) = insert m {x \<in> set (listAll st). match_id x \<noteq> match_id m}"
proof -
  have d: "distinct (map fst (st_matches st))" and k: "\<And>mid x. (mid, x) \<in> set (st_matches st) \<Longrightarrow> match_id x = mid"
    using assms by (auto simp: index_ok_iff)
  have "set (st_matches (repo_save m st)) = insert (match_id m, m) {kv \<in> set (st_matches st). fst kv \<noteq> match_id m}"
    unfolding repo_save_def using d by (simp add: set_alist_update_distinct)
  then show ?thesis using k by (force simp: listAll_def)
qed

lemma listAll_remove:
  assumes "index_ok st"
  shows "set (listAll (repo_remove mid st)) = {x \<in> set (listAll st). match_id x \<noteq> mid}"
proof -
  have d: "distinct (map fst (st_matches st))" and k: "\<And>mid x. (mid, x) \<in> set (st_matches st) \<Longrightarrow> match_id x = mid"
    using assms by (auto simp: index_ok_iff)
  have "set (st_matches (repo_remove mid st)) = {kv \<in> set (st_matches st). fst kv \<noteq> mid}"
    unfolding repo_remove_def using d by (simp add: set_alist_delete_eq split: option.splits)
  then show ?thesis using k by (force simp: listAll_def)
qed

lemma listAll_clearWaiting [simp]: "listAll (clearWaiting lt st) = listAll st"
  by (simp add: listAll_def clearWaiting_def)

lemma index_ok_clearWaiting [simp]: "index_ok (clearWaiting lt st) = index_ok st"
  by (simp add: index_ok_def clearWaiting_def)

lemma listAll_distinct_ids:
  assumes "index_ok st"
  shows "distinct (map match_id (listAll st))"
proof -
  have "map match_id (listAll st) = map fst (st_matches st)"
    unfolding listAll_def using assms by (auto simp: index_ok_iff intro: map_cong)
  then show ?thesis using assms by (simp add: index_ok_iff)
qed

lemma listAll_repo_get:
  assumes "index_ok st" "m \<in> set (listAll st)"
  shows "repo_get st (match_id m) = Some m"
proof -
  obtain mid where mem: "(mid, m) \<in> set (st_matches st)" using assms(2) by (auto simp: listAll_def)
  then have "match_id m = mid" "distinct (map fst (st_matches st))" using assms(1) by (auto simp: index_ok_iff)
  then show ?thesis using mem by (simp add: repo_get_def map_of_is_SomeI)
qed

lemma repo_get_listAll:
  "index_ok st \<Longrightarrow> repo_get st mid = Some m \<Longrightarrow> m \<in> set (listAll st) \<and> match_id m = mid"
  by (force simp: repo_get_def listAll_def index_ok_iff dest: map_of_SomeD)

section \<open>Properties\<close>

text \<open>\<open>save\<close> and \<open>remove\<close> keep the store consistent: documents under their
  own ids, once each, and every player of a stored match indexed under its user id.\<close>

theorem store_ops_index_ok:
  "index_ok st \<Longrightarrow> index_ok (repo_save m st) \<and> index_ok (repo_remove mid st)"
  using repo_save_index_ok repo_remove_index_ok by blast

text \<open>on a consistent store, the matches \<open>listByUser\<close> returns that
  have the user as a player are exactly the stored matches that have the user as a
  player; \<open>listByUser\<close> may also return matches the user has left, whose ids stay in
  the user's index.\<close>

theorem listByUser_exact:
  assumes "index_ok st" "u \<noteq> []"
  shows "set (filter (\<lambda>m. find_player m u \<noteq> None) (listByUser st u)) =
         set (filter (\<lambda>m. find_player m u \<noteq> None) (listAll st))"
  using listByUser_sound listByUser_complete [OF assms(1) _ _ assms(2)] by auto

text \<open>reading a match back after \<open>save\<close> returns the saved document, and
  after \<open>remove\<close> returns nothing.\<close>

theorem repo_get_save_remove:
  "repo_get (repo_save m st) (match_id m) = Some m \<and> repo_get (repo_remove mid st) mid = None"
  by (simp add: repo_get_save repo_get_remove)

section \<open>Witnesses\<close>

theorem store_ops_index_ok_witness:
  "index_ok (repo_save demo_match empty_store) \<and> index_ok (repo_remove ''classic-1'' empty_store)"
  using store_ops_index_ok [OF empty_store_index_ok] .

theorem listByUser_exact_witness:
  "set (filter (\<lambda>m. find_player m ''alice'' \<noteq> None) (listByUser (repo_save demo_match empty_store) ''alice'')) =
   set (filter (\<lambda>m. find_player m ''alice'' \<noteq> None) (listAll (repo_save demo_match empty_store)))"
  using listByUser_exact [OF repo_save_index_ok [OF empty_store_index_ok]] by simp

end
