(* ===== verification/Lobbies.thy ===== *)
theory Lobbies
  imports Prelude
begin

text \<open>
  The lobby catalogue of src/backend/src/config/lobbies.ts. \<open>loadLobbyConfig\<close> parses
  lobbies.json and keeps the entries that \<open>validateLobbyConfig\<close> accepts; the model
  takes the result of reading and parsing the file as its input (\<open>None\<close> when
  \<open>readFileSync\<close> or \<open>JSON.parse\<close> throws), since reading the file is I/O. Parsed JSON is
  the datatype \<open>json\<close>; numbers are exact rationals (a JSON literal is a finite decimal).
  A property read \<open>v.k\<close> is \<open>get_prop v k\<close>: the last binding of \<open>k\<close> of an object (as
  \<open>JSON.parse\<close> keeps the last of duplicate keys) and \<open>undefined\<close> (\<open>None\<close>) on
  anything else, except on \<open>null\<close>, where it throws a \<open>TypeError\<close>.

  The record \<open>lobby_config\<close> is the type \<open>LobbyConfig\<close> the rest of the code reads its
  fields from; the lifecycle engine takes the lookup \<open>getLobbyConfig\<close> as a function
  from lobby types to \<open>lobby_config option\<close>.
\<close>

section \<open>Definitions\<close>

datatype json = JNull | JBool bool | JNum rat | JStr string | JArr "json list"
  | JObj "(string \<times> json) list"

datatype js_error = TypeError

text \<open>\<open>LobbyConfig\<close>, lines 5-16, with the integer fields the engine stores in a match.\<close>

record lobby_config =
  cfg_lobbyType :: lobby_type
  cfg_name :: string
  cfg_entryFee :: int
  cfg_boardSize :: nat
  cfg_gameDuration :: nat
  cfg_maxPlayers :: nat
  cfg_payoutMultipliers :: "rat list"
  cfg_totalPrizeGems :: int
  cfg_timeBonusPerSecond :: "rat option"
  cfg_timeBonusMaxPoints :: "int option"

text \<open>\<open>v.k\<close> on a value that is not \<open>null\<close>.\<close>

definition get_prop :: "json \<Rightarrow> string \<Rightarrow> json option" where
  "get_prop v k = (case v of JObj kvs \<Rightarrow> map_of (rev kvs) k | _ \<Rightarrow> None)"

definition is_str :: "json option \<Rightarrow> bool" where
  "is_str v = (case v of Some (JStr _) \<Rightarrow> True | _ \<Rightarrow> False)"

definition is_number :: "json option \<Rightarrow> bool" where
  "is_number v = (case v of Some (JNum _) \<Rightarrow> True | _ \<Rightarrow> False)"

definition is_arr :: "json option \<Rightarrow> bool" where
  "is_arr v = (case v of Some (JArr _) \<Rightarrow> True | _ \<Rightarrow> False)"

text \<open>A comparison \<open>v >= r\<close> and \<open>v <= r\<close>, reached only after \<open>typeof v === "number"\<close>.\<close>

definition num_ge :: "json option \<Rightarrow> rat \<Rightarrow> bool" where
  "num_ge v r = (case v of Some (JNum x) \<Rightarrow> r \<le> x | _ \<Rightarrow> False)"

definition num_le :: "json option \<Rightarrow> rat \<Rightarrow> bool" where
  "num_le v r = (case v of Some (JNum x) \<Rightarrow> x \<le> r | _ \<Rightarrow> False)"

text \<open>\<open>validateLobbyConfig\<close>, lines 19-35: the first property read throws on \<open>null\<close>.\<close>

definition validateLobbyConfig :: "json \<Rightarrow> js_error + bool" where
  "validateLobbyConfig lobby =
     (if lobby = JNull then Inl TypeError
      else
        (let f = get_prop lobby in
         Inr (is_str (f ''lobbyType'') \<and> is_str (f ''name'') \<and> is_number (f ''entryFee'') \<and>
              (f ''boardSize'' = Some (JNum 4) \<or> f ''boardSize'' = Some (JNum 5)) \<and>
              is_number (f ''gameDuration'') \<and> is_number (f ''maxPlayers'') \<and>
              is_arr (f ''payoutMultipliers'') \<and> is_number (f ''totalPrizeGems'') \<and>
              num_ge (f ''entryFee'') 0 \<and> num_ge (f ''gameDuration'') 60 \<and>
              num_le (f ''gameDuration'') 1800 \<and> num_ge (f ''maxPlayers'') 2 \<and>
              num_le (f ''maxPlayers'') 10)))"

text \<open>\<open>config.lobbies.filter(...)\<close>, lines 51-60: an exception in the callback aborts the
  whole filter.\<close>

fun filter_valid :: "json list \<Rightarrow> js_error + json list" where
  "filter_valid [] = Inr []"
| "filter_valid (l # ls) =
     (case validateLobbyConfig l of
        Inl e \<Rightarrow> Inl e
      | Inr ok \<Rightarrow> (case filter_valid ls of Inl e \<Rightarrow> Inl e | Inr r \<Rightarrow> Inr (if ok then l # r else r)))"

text \<open>\<open>loadLobbyConfig\<close>, lines 38-69, on the parsed file; every exception lands in the
  \<open>catch\<close> of line 64 and gives the empty catalogue.\<close>

definition loadLobbyConfig :: "json option \<Rightarrow> json list" where
  "loadLobbyConfig parsed =
     (case parsed of
        None \<Rightarrow> []
      | Some config \<Rightarrow>
          (if config = JNull then []
           else case get_prop config ''lobbies'' of
                  Some (JArr ls) \<Rightarrow> (case filter_valid ls of Inl _ \<Rightarrow> [] | Inr r \<Rightarrow> r)
                | _ \<Rightarrow> []))"

text \<open>\<open>getLobbyConfig\<close>, lines 73-75, over the loaded catalogue.\<close>

definition getLobbyConfig :: "json list \<Rightarrow> lobby_type \<Rightarrow> json option" where
  "getLobbyConfig lobbies t = find (\<lambda>l. get_prop l ''lobbyType'' = Some (JStr t)) lobbies"

text \<open>The same lookup on the typed catalogue, as the engine calls it.\<close>

definition get_cfg :: "lobby_config list \<Rightarrow> lobby_type \<Rightarrow> lobby_config option" where
  "get_cfg lobbies t = find (\<lambda>l. cfg_lobbyType l = t) lobbies"

text \<open>Two catalogue entries for the scenarios below: a well-formed lobby, and one that
  passes validation with a fractional capacity, a negative prize pool and a multiplier
  that is not a number.\<close>

definition classic_lobby :: json where
  "classic_lobby =
     JObj [(''lobbyType'', JStr ''classic''), (''name'', JStr ''Classic''), (''entryFee'', JNum 100),
           (''boardSize'', JNum 4), (''gameDuration'', JNum 120), (''maxPlayers'', JNum 2),
           (''payoutMultipliers'', JArr [JNum 2]), (''totalPrizeGems'', JNum 180)]"

definition loose_lobby :: json where
  "loose_lobby =
     JObj [(''lobbyType'', JStr ''loose''), (''name'', JStr ''Loose''), (''entryFee'', JNum 0),
           (''boardSize'', JNum 5), (''gameDuration'', JNum 60), (''maxPlayers'', JNum (5 / 2)),
           (''payoutMultipliers'', JArr [JStr ''three'']), (''totalPrizeGems'', JNum (- 50))]"

section \<open>Lemmas\<close>

lemma filter_valid_Inr:
  "filter_valid ls = Inr r \<Longrightarrow> set r \<subseteq> set ls \<and> list_all (\<lambda>l. validateLobbyConfig l = Inr True) r"
  by (induction ls arbitrary: r) (auto split: sum.splits if_splits)

lemma filter_valid_null: "JNull \<in> set ls \<Longrightarrow> filter_valid ls = Inl TypeError"
proof (induction ls)
  case Nil
  then show ?case by simp
next
  case (Cons l ls)
  show ?case
  proof (cases "l = JNull")
    case True
    then show ?thesis by (simp add: validateLobbyConfig_def)
  next
    case False
    then have "JNull \<in> set ls" using Cons.prems by simp
    then show ?thesis using Cons.IH by (auto simp: validateLobbyConfig_def Let_def split: sum.splits)
  qed
qed

lemma loadLobbyConfig_valid: "list_all (\<lambda>l. validateLobbyConfig l = Inr True) (loadLobbyConfig parsed)"
  by (auto simp: loadLobbyConfig_def dest: filter_valid_Inr split: option.splits json.splits sum.splits)

lemma num_props:
  "is_number v \<and> num_ge v a \<longleftrightarrow> (\<exists>x. v = Some (JNum x) \<and> a \<le> x)"
  "is_number v \<and> num_ge v a \<and> num_le v b \<longleftrightarrow> (\<exists>x. v = Some (JNum x) \<and> a \<le> x \<and> x \<le> b)"
  by (auto simp: is_number_def num_ge_def num_le_def split: option.splits json.splits)

section \<open>Properties\<close>

text \<open>a lobby that \<open>getLobbyConfig\<close> finds in the loaded catalogue
  passed \<open>validateLobbyConfig\<close> and has the requested lobby type.\<close>

theorem getLobbyConfig_loaded:
  assumes "getLobbyConfig (loadLobbyConfig parsed) t = Some l"
  shows "validateLobbyConfig l = Inr True \<and> get_prop l ''lobbyType'' = Some (JStr t)"
proof -
  have "l \<in> set (loadLobbyConfig parsed)" "get_prop l ''lobbyType'' = Some (JStr t)"
    using assms by (auto simp: getLobbyConfig_def find_Some_iff)
  then show ?thesis using loadLobbyConfig_valid [of parsed] by (simp add: list_all_iff)
qed

text \<open>a lobby that passes validation has a string lobby type, a
  nonnegative entry fee, board size 4 or 5, a duration between 60 and 1800 seconds and
  between 2 and 10 players, the ranges of section 3 of the specification.\<close>

theorem validateLobbyConfig_bounds:
  assumes "validateLobbyConfig l = Inr True"
  shows "is_str (get_prop l ''lobbyType'') \<and>
         (\<exists>e. get_prop l ''entryFee'' = Some (JNum e) \<and> 0 \<le> e) \<and>
         (get_prop l ''boardSize'' = Some (JNum 4) \<or> get_prop l ''boardSize'' = Some (JNum 5)) \<and>
         (\<exists>d. get_prop l ''gameDuration'' = Some (JNum d) \<and> 60 \<le> d \<and> d \<le> 1800) \<and>
         (\<exists>n. get_prop l ''maxPlayers'' = Some (JNum n) \<and> 2 \<le> n \<and> n \<le> 10)"
  using assms num_props [of "get_prop l ''entryFee''" 0]
    num_props(2) [of "get_prop l ''gameDuration''" 60 1800] num_props(2) [of "get_prop l ''maxPlayers''" 2 10]
  by (auto simp: validateLobbyConfig_def Let_def split: if_splits)

text \<open>C38: a single \<open>null\<close> entry in the lobbies array empties the whole
  catalogue: validating it throws, the exception leaves the \<open>filter\<close> and is caught by
  the outer \<open>catch\<close>, which returns no lobbies, instead of the entry being logged and
  skipped as invalid entries are.\<close>

theorem loadLobbyConfig_null_entry:
  "JNull \<in> set ls \<Longrightarrow> loadLobbyConfig (Some (JObj [(''lobbies'', JArr ls)])) = []"
  by (simp add: loadLobbyConfig_def get_prop_def filter_valid_null)

text \<open>validation checks neither the elements of the multiplier list nor
  the sign of the prize pool nor that the capacity is a whole number: a lobby with
  capacity 5/2, prize pool -50 and the multiplier "three" is kept.\<close>

theorem loose_lobby_loaded:
  "loadLobbyConfig (Some (JObj [(''lobbies'', JArr [classic_lobby, loose_lobby])])) = [classic_lobby, loose_lobby]"
  by (simp add: loadLobbyConfig_def get_prop_def validateLobbyConfig_def classic_lobby_def loose_lobby_def
      is_str_def is_number_def is_arr_def num_ge_def num_le_def)

section \<open>Witnesses\<close>

theorem getLobbyConfig_loaded_witness:
  "validateLobbyConfig classic_lobby = Inr True \<and> get_prop classic_lobby ''lobbyType'' = Some (JStr ''classic'')"
proof -
  have "getLobbyConfig (loadLobbyConfig (Some (JObj [(''lobbies'', JArr [classic_lobby])]))) ''classic'' =
        Some classic_lobby"
    by (simp add: getLobbyConfig_def loadLobbyConfig_def get_prop_def validateLobbyConfig_def classic_lobby_def
        is_str_def is_number_def is_arr_def num_ge_def num_le_def)
  from getLobbyConfig_loaded [OF this] show ?thesis .
qed

theorem validateLobbyConfig_bounds_witness:
  "is_str (get_prop classic_lobby ''lobbyType'') \<and>
   (get_prop classic_lobby ''boardSize'' = Some (JNum 4) \<or> get_prop classic_lobby ''boardSize'' = Some (JNum 5))"
proof -
  have "validateLobbyConfig classic_lobby = Inr True"
    by (simp add: get_prop_def validateLobbyConfig_def classic_lobby_def
        is_str_def is_number_def is_arr_def num_ge_def num_le_def)
  from validateLobbyConfig_bounds [OF this] show ?thesis by blast
qed

theorem loadLobbyConfig_null_entry_witness:
  "loadLobbyConfig (Some (JObj [(''lobbies'', JArr [classic_lobby, JNull])])) = []"
  using loadLobbyConfig_null_entry [of "[classic_lobby, JNull]"] by simp

end
