(* ===== verification/Lifecycle.thy ===== *)
theory Lifecycle
  imports Payout Board Ledger Store Lobbies
begin

text \<open>
  The match lifecycle engine of src/backend/src/modules/matches.ts: the handlers of
  \<open>POST /matches/join\<close>, \<open>/leave\<close>, \<open>/:matchId/save-words\<close>, \<open>/:matchId/validate\<close>
  and \<open>/:matchId/words\<close> (submit), with \<open>saveCompletedMatch\<close> and \<open>toClientMatch\<close>.

  Each handler is a function from a \<open>world\<close> to a reply and the next world. The world
  holds the three stores the handler touches: the Redis match store (theory
  \<open>Store\<close>), the ledger (theory \<open>Ledger\<close>), the \<open>completedMatch\<close> history table, and
  the module state of the dictionary (theory \<open>Dictionary\<close>). A handler reads the store,
  changes its copy of a match and writes it back, as the code does; the request's
  \<open>Date.now()\<close> is the parameter \<open>now\<close>, one value per request. The lobby catalogue is
  the parameter \<open>cfgs\<close>, the function \<open>getLobbyConfig\<close> on the typed catalogue
  (\<open>Lobbies.get_cfg\<close>), and the dictionary file's content is the parameter \<open>file\<close>.
  The zod schemas are their checks on the fields the handler uses; the caller of
  \<open>/validate\<close> is the authenticated user id, since authentication is out of scope.
\<close>

section \<open>World\<close>

text \<open>A row of the \<open>completedMatch\<close> table (matches.ts lines 68-82).\<close>

record completed_row =
  cm_lobbyType :: lobby_type
  cm_entryFee :: int
  cm_prizePool :: int
  cm_gameDuration :: nat
  cm_status :: status
  cm_createdAt :: ms
  cm_startedAt :: "ms option"
  cm_endedAt :: "ms option"
  cm_board :: board
  cm_players :: "player list"

record world =
  w_store :: store
  w_ledger :: ledger
  w_history :: "(match_id \<times> completed_row) list"
  w_dict :: dict_state

type_synonym lobbies = "lobby_type \<Rightarrow> lobby_config option"

section \<open>Helpers\<close>

text \<open>\<open>Date.now().toString(36)\<close>.\<close>

definition digit36 :: "nat \<Rightarrow> char" where
  "digit36 d = (if d < 10 then char_of (48 + d) else char_of (87 + d))"

fun to_base36 :: "nat \<Rightarrow> string" where
  "to_base36 n = (if n < 36 then [digit36 n] else to_base36 (n div 36) @ [digit36 (n mod 36)])"

declare to_base36.simps [simp del]

text \<open>The id of a new match, \<open>`${lobbyType}-${Date.now().toString(36)}`\<close> (line 222).\<close>

definition new_match_id :: "lobby_type \<Rightarrow> ms \<Rightarrow> match_id" where
  "new_match_id lt now = lt @ ''-'' @ to_base36 now"

text \<open>The mutation of the object \<open>players.find(p => p.id === userId)\<close> returns: only the
  first player with that id changes.\<close>

fun upd_first :: "user_id \<Rightarrow> (player \<Rightarrow> player) \<Rightarrow> player list \<Rightarrow> player list" where
  "upd_first u f [] = []"
| "upd_first u f (p # ps) = (if player_id p = u then f p # ps else p # upd_first u f ps)"

text \<open>\<open>String(w).trim().toUpperCase()\<close>.\<close>

definition normalize :: "string \<Rightarrow> string" where
  "normalize w = toUpperCase (trim w)"

text \<open>\<open>w.length >= 3 && /^[A-Z]+$/.test(w)\<close>.\<close>

definition basic_ok :: "string \<Rightarrow> bool" where
  "basic_ok w \<longleftrightarrow> 3 \<le> length w \<and> alpha_word w"

text \<open>\<open>Array.from(new Set(ws))\<close>: the first occurrence of every word, in order.\<close>

fun dedup :: "string list \<Rightarrow> string list" where
  "dedup [] = []"
| "dedup (w # ws) = w # dedup (filter (\<lambda>v. v \<noteq> w) ws)"

text \<open>The words a submission keeps, lines 416-425 (and server.ts lines 73-80).\<close>

definition accepted_words :: "dict_state \<Rightarrow> board \<Rightarrow> string list \<Rightarrow> string list" where
  "accepted_words d b ws =
     dedup (filter (\<lambda>w. isWord d w \<and> canFormWordOnBoard b w) (filter basic_ok (map normalize ws)))"

text \<open>\<open>unique.reduce((acc, w) => acc + w.length * w.length, 0)\<close>.\<close>

definition base_score :: "string list \<Rightarrow> int" where
  "base_score ws = sum_list (map (\<lambda>w. int (length w * length w)) ws)"

text \<open>The time bonus of lines 442-447: whole seconds left, times the lobby's rate,
  floored and capped (no cap is \<open>Infinity\<close>).\<close>

definition time_bonus :: "rat \<Rightarrow> int option \<Rightarrow> ms \<Rightarrow> ms \<Rightarrow> int" where
  "time_bonus perSecond maxBonus deadline now =
     (let remaining = (deadline - now) div 1000;
          b = \<lfloor>of_nat remaining * perSecond\<rfloor>
      in case maxBonus of None \<Rightarrow> b | Some mx \<Rightarrow> min b mx)"

text \<open>\<open>getLobbyConfig(t)?.f ?? d\<close>.\<close>

definition cfg_or :: "lobbies \<Rightarrow> lobby_type \<Rightarrow> (lobby_config \<Rightarrow> 'a) \<Rightarrow> 'a \<Rightarrow> 'a" where
  "cfg_or cfgs t f d = (case cfgs t of None \<Rightarrow> d | Some c \<Rightarrow> f c)"

text \<open>A user's active match: not completed, with the user seated and not submitted
  (lines 152-160 and 290-295).\<close>

definition active_for :: "user_id \<Rightarrow> internal_match \<Rightarrow> bool" where
  "active_for u m \<longleftrightarrow>
     status m \<noteq> Completed \<and> (case find_player m u of None \<Rightarrow> False | Some p \<Rightarrow> submittedAt p = None)"

section \<open>The client view, \<open>toClientMatch\<close> (lines 682-721)\<close>

record client_view =
  cv_matchId :: match_id
  cv_lobbyId :: lobby_type
  cv_board :: board
  cv_timer :: int
  cv_myWords :: "string list"
  cv_opponentWords :: "string list"
  cv_completed :: bool
  cv_myScore :: int
  cv_myWordScore :: "int option"
  cv_myTimeBonus :: "int option"
  cv_opponentScore :: int
  cv_opponentId :: "user_id option"
  cv_opponentUsername :: string
  cv_createdAt :: ms
  cv_startedAt :: "ms option"
  cv_endedAt :: "ms option"
  cv_entryFee :: int
  cv_prizePool :: int
  cv_gameDuration :: nat
  cv_playerDeadlineAt :: "ms option"

definition toClientMatch :: "internal_match \<Rightarrow> user_id \<Rightarrow> ms \<Rightarrow> client_view" where
  "toClientMatch m u now =
     (let me = find_player m u;
          other = find (\<lambda>p. player_id p \<noteq> u) (players m);
          opponentWords = (if status m = Completed then (case other of None \<Rightarrow> [] | Some q \<Rightarrow> words q) else []);
          timeRemaining =
            (case me of
               Some p \<Rightarrow> (if submittedAt p = None
                          then max 0 ((int (player_deadline m p) - int now) div 1000)
                          else int (gameDuration m))
             | None \<Rightarrow> int (gameDuration m))
      in \<lparr>cv_matchId = match_id m, cv_lobbyId = lobbyType m, cv_board = match_board m,
          cv_timer = timeRemaining,
          cv_myWords = (case me of None \<Rightarrow> [] | Some p \<Rightarrow> words p),
          cv_opponentWords = opponentWords,
          cv_completed = (status m = Completed),
          cv_myScore = (case me of None \<Rightarrow> 0 | Some p \<Rightarrow> score p),
          cv_myWordScore = (case me of None \<Rightarrow> None | Some p \<Rightarrow> wordScore p),
          cv_myTimeBonus = (case me of None \<Rightarrow> None | Some p \<Rightarrow> timeBonus p),
          cv_opponentScore = (case other of None \<Rightarrow> 0 | Some q \<Rightarrow> score q),
          cv_opponentId = (case other of None \<Rightarrow> None | Some q \<Rightarrow> if player_id q = [] then None else Some (player_id q)),
          cv_opponentUsername = (case other of None \<Rightarrow> ''Opponent'' | Some q \<Rightarrow> if name q = [] then ''Opponent'' else name q),
          cv_createdAt = createdAt m, cv_startedAt = startedAt m, cv_endedAt = endedAt m,
          cv_entryFee = entryFee m, cv_prizePool = prizePool m, cv_gameDuration = gameDuration m,
          cv_playerDeadlineAt = (case me of None \<Rightarrow> None | Some p \<Rightarrow> deadlineAt p)\<rparr>)"

section \<open>Replies\<close>

text \<open>What a handler answers: a value, a conflict carrying the current match (join's
  409), or a failure with its HTTP status.\<close>

datatype 'a reply = Reply 'a | Conflict client_view | Failure nat string

section \<open>\<open>POST /matches/join\<close> (lines 139-274)\<close>

text \<open>The match a first join creates, before the debit (lines 221-250).\<close>

definition fresh_match :: "lobby_config \<Rightarrow> lobby_type \<Rightarrow> user_id \<Rightarrow> string \<Rightarrow> ms \<Rightarrow> internal_match" where
  "fresh_match cfg lt u playerName now =
     \<lparr>match_id = new_match_id lt now, lobbyType = lt,
      match_board = generateDiceBoard (cfg_boardSize cfg) now,
      createdAt = now, startedAt = None, endedAt = None,
      entryFee = cfg_entryFee cfg, prizePool = cfg_totalPrizeGems cfg,
      gameDuration = cfg_gameDuration cfg,
      players = [new_player u playerName now (now + cfg_gameDuration cfg * 1000) False],
      status = Waiting, autoCompleteAt = now + 60 * 60 * 1000, payoutAt = None\<rparr>"

text \<open>A waiting match of the lobby with a free seat and without the user (lines 179-186).\<close>

definition joinable :: "lobbies \<Rightarrow> lobby_type \<Rightarrow> user_id \<Rightarrow> internal_match \<Rightarrow> bool" where
  "joinable cfgs lt u m \<longleftrightarrow>
     lobbyType m = lt \<and> status m = Waiting \<and>
     length (players m) < cfg_or cfgs lt cfg_maxPlayers 7 \<and> find_player m u = None"

definition join ::
  "lobbies \<Rightarrow> ms \<Rightarrow> lobby_type \<Rightarrow> user_id \<Rightarrow> string option \<Rightarrow> world \<Rightarrow> client_view reply \<times> world" where
  "join cfgs now lt u nameOpt w =
     (if lt = [] \<or> u = [] \<or> nameOpt = Some [] then (Failure 400 ''Invalid request data'', w)
      else
        (let playerName = (case nameOpt of None \<Rightarrow> ''Player'' | Some n \<Rightarrow> n);
             st = w_store w
         in case find (active_for u) (listByUser st u) of
              Some am \<Rightarrow>
                (if lobbyType am = lt then (Reply (toClientMatch am u now), w)
                 else (Conflict (toClientMatch am u now), w))
            | None \<Rightarrow>
                (case find (joinable cfgs lt u) (listAll st) of
                   Some m \<Rightarrow>
                     (let (ok, l') = tryDebitUser u (cfg_or cfgs lt cfg_entryFee 100) (Some (match_id m)) (Some lt) (w_ledger w)
                      in if \<not> ok then (Failure 402 ''insufficient funds'', w\<lparr>w_ledger := l'\<rparr>)
                         else
                           (let deadline = now + cfg_or cfgs lt cfg_gameDuration 300 * 1000;
                                m' = m\<lparr>players := players m @ [new_player u playerName now deadline True]\<rparr>
                            in (Reply (toClientMatch m' u now), w\<lparr>w_store := repo_save m' st, w_ledger := l'\<rparr>)))
                 | None \<Rightarrow>
                     (case cfgs lt of
                        None \<Rightarrow> (Failure 400 ''Invalid lobby type'', w)
                      | Some cfg \<Rightarrow>
                          (let m = fresh_match cfg lt u playerName now;
                               (paid, l') = tryDebitUser u (cfg_entryFee cfg) (Some (match_id m)) (Some lt) (w_ledger w)
                           in if \<not> paid then (Failure 402 ''insufficient funds'', w\<lparr>w_ledger := l'\<rparr>)
                              else
                                (let m' = m\<lparr>players := map (\<lambda>p. p\<lparr>paidEntry := True\<rparr>) (players m)\<rparr>
                                 in (Reply (toClientMatch m' u now), w\<lparr>w_store := repo_save m' st, w_ledger := l'\<rparr>)))))))"

section \<open>\<open>POST /matches/leave\<close> (lines 281-324)\<close>

definition leave :: "user_id \<Rightarrow> world \<Rightarrow> unit reply \<times> world" where
  "leave u w =
     (if u = [] then (Failure 400 ''Invalid request data'', w)
      else
        (let st = w_store w
         in case find (active_for u) (listByUser st u) of
              None \<Rightarrow> (Failure 404 ''No active match found where user hasn't submitted words'', w)
            | Some am \<Rightarrow>
                (let am' = am\<lparr>players := filter (\<lambda>p. player_id p \<noteq> u) (players am)\<rparr>
                 in if players am' = [] then (Reply (), w\<lparr>w_store := clearWaiting (lobbyType am') st\<rparr>)
                    else (Reply (), w\<lparr>w_store := repo_save am' st\<rparr>))))"

section \<open>\<open>POST /matches/:matchId/save-words\<close> (lines 343-362)\<close>

definition saveWords :: "match_id \<Rightarrow> user_id \<Rightarrow> string list \<Rightarrow> world \<Rightarrow> string list reply \<times> world" where
  "saveWords mid u ws w =
     (if u = [] then (Failure 400 ''Invalid request data'', w)
      else case repo_get (w_store w) mid of
        None \<Rightarrow> (Failure 404 ''match not found'', w)
      | Some m \<Rightarrow>
          (case find_player m u of
             None \<Rightarrow> (Failure 404 ''player not in match'', w)
           | Some _ \<Rightarrow>
               (let saved = map normalize ws;
                    m' = m\<lparr>players := upd_first u (\<lambda>p. p\<lparr>words := saved\<rparr>) (players m)\<rparr>
                in (Reply saved, w\<lparr>w_store := repo_save m' (w_store w)\<rparr>))))"

section \<open>\<open>POST /matches/:matchId/validate\<close> (lines 365-399)\<close>

text \<open>The reply is the validity and the normalised word; the only state it changes is
  the dictionary's, on its first use.\<close>

definition validateWord ::
  "string option \<Rightarrow> match_id \<Rightarrow> user_id \<Rightarrow> string \<Rightarrow> world \<Rightarrow> (bool \<times> string) reply \<times> world" where
  "validateWord file mid u word w =
     (if word = [] then (Failure 400 ''Invalid request data'', w)
      else case repo_get (w_store w) mid of
        None \<Rightarrow> (Failure 404 ''match not found'', w)
      | Some m \<Rightarrow>
          (case find_player m u of
             None \<Rightarrow> (Failure 404 ''player not in match'', w)
           | Some _ \<Rightarrow>
               (let d = initDictionary file (w_dict w);
                    normalized = normalize word;
                    valid = basic_ok normalized \<and> isWord d normalized \<and> canFormWordOnBoard (match_board m) normalized
                in (Reply (valid, normalized), w\<lparr>w_dict := d\<rparr>))))"

section \<open>Completion and settlement\<close>

text \<open>\<open>prisma.completedMatch.create\<close> under the table's primary key: a second create for
  the same id fails with a unique violation, which every caller catches and ignores.\<close>

definition history_create ::
  "match_id \<Rightarrow> completed_row \<Rightarrow> (match_id \<times> completed_row) list \<Rightarrow> (match_id \<times> completed_row) list" where
  "history_create mid row h = (if mid \<in> fst ` set h then h else h @ [(mid, row)])"

text \<open>The history row of a completed match with its ranked players (lines 62-82).\<close>

definition history_row :: "internal_match \<Rightarrow> player list \<Rightarrow> completed_row" where
  "history_row m ranked =
     \<lparr>cm_lobbyType = lobbyType m, cm_entryFee = entryFee m, cm_prizePool = prizePool m,
      cm_gameDuration = gameDuration m, cm_status = status m, cm_createdAt = createdAt m,
      cm_startedAt = startedAt m, cm_endedAt = endedAt m, cm_board = match_board m,
      cm_players = ranked\<rparr>"

text \<open>\<open>saveCompletedMatch\<close>, lines 59-88.\<close>

definition saveCompletedMatch ::
  "lobbies \<Rightarrow> internal_match \<Rightarrow> (match_id \<times> completed_row) list \<Rightarrow> (match_id \<times> completed_row) list" where
  "saveCompletedMatch cfgs m h =
     (let ranked = rankAndAllocateWinnings (players m) (prizePool m)
                     (cfg_or cfgs (lobbyType m) cfg_payoutMultipliers [])
      in history_create (match_id m) (history_row m ranked) h)"

text \<open>\<open>(p.rank as number) || 1\<close>.\<close>

definition place_of :: "player \<Rightarrow> nat" where
  "place_of p = (case rank p of Some r \<Rightarrow> if r = 0 then 1 else r | None \<Rightarrow> 1)"

text \<open>The crediting loop of lines 475-484: \<open>creditPrize\<close> for every winner with a positive
  amount, in the allocator's order.\<close>

definition credit_all :: "internal_match \<Rightarrow> player list \<Rightarrow> ledger \<Rightarrow> ledger" where
  "credit_all m winners l =
     fold (\<lambda>p l. if 0 < winnings_of p
                 then creditPrize (player_id p) (winnings_of p) (Some (lobbyType m)) (Some (match_id m)) (Some (place_of p)) l
                 else l) winners l"

text \<open>The completion branch of submit, lines 462-490: mark the match completed, save
  it to history, and, unless \<open>payoutAt\<close> is set, credit the winners and stamp it.\<close>

definition settle :: "lobbies \<Rightarrow> ms \<Rightarrow> internal_match \<Rightarrow> world \<Rightarrow> internal_match \<times> world" where
  "settle cfgs now m w =
     (let m1 = m\<lparr>status := Completed, endedAt := Some now\<rparr>;
          h = saveCompletedMatch cfgs m1 (w_history w)
      in if payoutAt m1 = None
         then (let winners = rankAndAllocateWinnings (players m1) (prizePool m1)
                               (cfg_or cfgs (lobbyType m1) cfg_payoutMultipliers [])
               in (m1\<lparr>payoutAt := Some now\<rparr>,
                   w\<lparr>w_history := h, w_ledger := credit_all m1 winners (w_ledger w)\<rparr>))
         else (m1, w\<lparr>w_history := h\<rparr>))"

text \<open>Lines 456-460: the match is complete when it is full and everybody submitted.\<close>

definition all_submitted :: "lobbies \<Rightarrow> internal_match \<Rightarrow> bool" where
  "all_submitted cfgs m \<longleftrightarrow>
     length (players m) = cfg_or cfgs (lobbyType m) cfg_maxPlayers 7 \<and>
     list_all (\<lambda>q. submittedAt q \<noteq> None) (players m)"

text \<open>Lines 492-498: a completed match leaves the store, any other is written back.\<close>

definition persist :: "internal_match \<Rightarrow> store \<Rightarrow> store" where
  "persist m st = (if status m = Completed then repo_remove (match_id m) st else repo_save m st)"

section \<open>\<open>POST /matches/:matchId/words\<close>, submit (lines 401-505)\<close>

text \<open>The frozen fields of a submission (lines 449-453).\<close>

definition freeze :: "string list \<Rightarrow> int \<Rightarrow> int \<Rightarrow> ms \<Rightarrow> player \<Rightarrow> player" where
  "freeze unique baseScore bonus now q =
     q\<lparr>words := unique, score := baseScore + bonus, wordScore := Some baseScore,
       timeBonus := Some bonus, submittedAt := Some now\<rparr>"

definition submit ::
  "string option \<Rightarrow> lobbies \<Rightarrow> ms \<Rightarrow> match_id \<Rightarrow> user_id \<Rightarrow> string list \<Rightarrow> world \<Rightarrow>
   (int \<times> bool) reply \<times> world" where
  "submit file cfgs now mid u ws w =
     (if u = [] then (Failure 400 ''Invalid request data'', w)
      else case repo_get (w_store w) mid of
        None \<Rightarrow> (Failure 404 ''match not found'', w)
      | Some m \<Rightarrow>
          (case find_player m u of
             None \<Rightarrow> (Failure 404 ''player not in match'', w)
           | Some p \<Rightarrow>
               (let d = initDictionary file (w_dict w);
                    w1 = w\<lparr>w_dict := d\<rparr>;
                    unique = accepted_words d (match_board m) ws;
                    perSecond = cfg_or cfgs (lobbyType m) (\<lambda>c. or_default (cfg_timeBonusPerSecond c) 0) 0;
                    maxBonus = cfg_or cfgs (lobbyType m) cfg_timeBonusMaxPoints None;
                    deadline = player_deadline m p
                in if deadline < now then (Failure 403 ''deadline passed'', w1)
                   else
                     (let baseScore = base_score unique;
                          bonus = time_bonus perSecond maxBonus deadline now;
                          m1 = m\<lparr>players := upd_first u (freeze unique baseScore bonus now) (players m)\<rparr>;
                          (m2, w2) = (if all_submitted cfgs m1 then settle cfgs now m1 w1 else (m1, w1))
                      in (Reply (baseScore + bonus, status m2 = Completed),
                          w2\<lparr>w_store := persist m2 (w_store w2)\<rparr>)))))"

section \<open>Seats\<close>

text \<open>An update of a player that keeps the seat: the same user, the same payment, and
  a submission is never undone. Saving words, submitting and auto-submitting keep every
  seat of the match.\<close>

definition seat_kept :: "player \<Rightarrow> player \<Rightarrow> bool" where
  "seat_kept p p' \<longleftrightarrow>
     player_id p' = player_id p \<and> paidEntry p' = paidEntry p \<and> (submittedAt p' = None \<longrightarrow> submittedAt p = None)"

section \<open>Scenarios\<close>

text \<open>A two-seat lobby with a time bonus of one point per second, capped at 100, and the
  world holding the one-player match of theory \<open>Store\<close> and the ledger of theory
  \<open>Ledger\<close>.\<close>

definition demo_cfg :: lobby_config where
  "demo_cfg =
     \<lparr>cfg_lobbyType = ''classic'', cfg_name = ''Classic'', cfg_entryFee = 100, cfg_boardSize = 4,
      cfg_gameDuration = 120, cfg_maxPlayers = 2, cfg_payoutMultipliers = [2], cfg_totalPrizeGems = 180,
      cfg_timeBonusPerSecond = Some 1, cfg_timeBonusMaxPoints = Some 100\<rparr>"

definition demo_cfgs :: lobbies where
  "demo_cfgs t = (if t = ''classic'' then Some demo_cfg else None)"

definition demo_world :: world where
  "demo_world = \<lparr>w_store = repo_save demo_match empty_store, w_ledger = demo_ledger, w_history = [], w_dict = None\<rparr>"

text \<open>The demo world after Alice's empty submission at 10 s, and the match it stores.\<close>

definition demo_submitted :: world where
  "demo_submitted = snd (submit None demo_cfgs 10000 ''classic-1'' ''alice'' [] demo_world)"

definition demo_submitted_match :: internal_match where
  "demo_submitted_match =
     demo_match\<lparr>players := [freeze [] 0 100 10000 (new_player ''alice'' ''Alice'' 0 120000 True)]\<rparr>"

text \<open>The fields of a journal row that the reconciliation reads.\<close>

abbreviation tx_sig :: "txn \<Rightarrow> user_id \<times> string \<times> match_id option \<times> int" where
  "tx_sig t \<equiv> (tx_userId t, tx_type t, tx_matchId t, tx_amount t)"

section \<open>Lemmas\<close>

text \<open>\<open>Array.from(new Set(ws))\<close> commutes with filtering, keeps the elements and drops
  the repetitions.\<close>

lemma dedup_filter: "dedup (filter P xs) = filter P (dedup xs)"
proof (induction xs rule: dedup.induct)
  case 1
  then show ?case by simp
next
  case (2 w ws)
  show ?case
  proof (cases "P w")
    case True
    then show ?thesis using 2 by (simp add: filter_filter conj_commute)
  next
    case False
    then have "filter (\<lambda>x. x \<noteq> w \<and> P x) ws = filter P ws" by (auto intro: filter_cong)
    then show ?thesis using 2 False by (simp add: filter_filter)
  qed
qed

lemma remdups_snoc: "remdups (xs @ [w]) = remdups (filter (\<lambda>v. v \<noteq> w) xs) @ [w]"
  by (induction xs) auto

lemma set_dedup [simp]: "set (dedup xs) = set xs"
  by (induction xs rule: dedup.induct) auto

lemma distinct_dedup: "distinct (dedup xs)"
  by (induction xs rule: dedup.induct) (auto simp: dedup_filter)

text \<open>Crediting the winners only appends journal rows.\<close>

lemma credit_all_grows: "grows l (credit_all m ws l)"
proof (induction ws arbitrary: l)
  case Nil
  then show ?case by (simp add: credit_all_def)
next
  case (Cons p ws)
  let ?l1 = "if 0 < winnings_of p then creditPrize (player_id p) (winnings_of p) (Some (lobbyType m))
               (Some (match_id m)) (Some (place_of p)) l else l"
  have g: "grows l ?l1" using creditPrize_grows by simp
  have eq: "credit_all m (p # ws) l = credit_all m ws ?l1" by (simp add: credit_all_def)
  show ?case unfolding eq by (rule grows_trans [OF g Cons.IH])
qed

text \<open>Booking on an existing account moves that user's total by the booked amounts.\<close>

lemma balance_total_book:
  "accounts l u = Some a \<Longrightarrow>
   balance_total (book u a t dg db l) v = balance_total l v + (if v = u then dg + db else 0)"
  by (simp add: balance_total_def book_def)

lemma credit_step:
  assumes "accounts l (player_id p) \<noteq> None" "\<not> has_key (player_id p) ''prize'' (match_id m) l"
  defines "l1 \<equiv> (if 0 < winnings_of p
                  then creditPrize (player_id p) (winnings_of p) (Some (lobbyType m)) (Some (match_id m)) (Some (place_of p)) l
                  else l)"
  shows "balance_total l1 v = balance_total l v + (if player_id p = v \<and> 0 < winnings_of p then winnings_of p else 0) \<and>
         (\<forall>x. accounts l x \<noteq> None \<longrightarrow> accounts l1 x \<noteq> None) \<and>
         (\<forall>x. x \<noteq> player_id p \<longrightarrow> has_key x ''prize'' (match_id m) l1 = has_key x ''prize'' (match_id m) l) \<and>
         (\<exists>ys. txns l1 = txns l @ ys \<and>
               map tx_sig ys = (if 0 < winnings_of p then [(player_id p, ''prize'', Some (match_id m), winnings_of p)] else []))"
proof (cases "0 < winnings_of p")
  case True
  obtain a where a: "accounts l (player_id p) = Some a" using assms(1) by blast
  obtain nt where c: "l1 = book (player_id p) a (new_txn (player_id p) ''prize'' (winnings_of p) Gems nt
                            (Some (match_id m)) (Some (lobbyType m))) (winnings_of p) 0 l"
    using creditPrize_fresh [OF a True assms(2)] True unfolding l1_def by auto
  have "balance_total l1 v = balance_total l v + (if player_id p = v then winnings_of p else 0)"
    using a by (simp add: c balance_total_book)
  moreover have "(\<forall>x. accounts l x \<noteq> None \<longrightarrow> accounts l1 x \<noteq> None) \<and>
      (\<forall>x. x \<noteq> player_id p \<longrightarrow> has_key x ''prize'' (match_id m) l1 = has_key x ''prize'' (match_id m) l) \<and>
      (\<exists>ys. txns l1 = txns l @ ys \<and> map tx_sig ys = [(player_id p, ''prize'', Some (match_id m), winnings_of p)])"
    by (simp add: c book_def new_txn_def)
  ultimately show ?thesis using True by auto
next
  case False
  then show ?thesis by (simp add: l1_def)
qed

text \<open>Crediting the winners of a match, each with an account and not yet paid for it,
  adds to every user exactly that user's positive winnings.\<close>

lemma credit_all_balance:
  "distinct (map player_id ws) \<Longrightarrow>
   \<forall>p \<in> set ws. accounts l (player_id p) \<noteq> None \<and> \<not> has_key (player_id p) ''prize'' (match_id m) l \<Longrightarrow>
   balance_total (credit_all m ws l) v =
     balance_total l v + sum_list (map (\<lambda>p. if player_id p = v \<and> 0 < winnings_of p then winnings_of p else 0) ws)"
proof (induction ws arbitrary: l)
  case Nil
  then show ?case by (simp add: credit_all_def)
next
  case (Cons p ws)
  define l1 where "l1 = (if 0 < winnings_of p
                  then creditPrize (player_id p) (winnings_of p) (Some (lobbyType m)) (Some (match_id m)) (Some (place_of p)) l
                  else l)"
  have p: "accounts l (player_id p) \<noteq> None" "\<not> has_key (player_id p) ''prize'' (match_id m) l"
    using Cons.prems(2) by simp_all
  note st = credit_step [OF p, folded l1_def]
  have eq: "credit_all m (p # ws) l = credit_all m ws l1" by (simp add: credit_all_def l1_def)
  have "\<forall>q \<in> set ws. accounts l1 (player_id q) \<noteq> None \<and> \<not> has_key (player_id q) ''prize'' (match_id m) l1"
  proof
    fix q
    assume q: "q \<in> set ws"
    then have "player_id q \<noteq> player_id p" using Cons.prems(1) by (force simp: image_iff)
    then show "accounts l1 (player_id q) \<noteq> None \<and> \<not> has_key (player_id q) ''prize'' (match_id m) l1"
      using st Cons.prems(2) q by simp
  qed
  then have "balance_total (credit_all m ws l1) v =
     balance_total l1 v + sum_list (map (\<lambda>p. if player_id p = v \<and> 0 < winnings_of p then winnings_of p else 0) ws)"
    using Cons.IH Cons.prems(1) by simp
  then show ?case using st eq by simp
qed

text \<open>The same loop appends one prize row per winner with a positive amount, in order.\<close>

lemma credit_all_rows:
  "distinct (map player_id ws) \<Longrightarrow>
   \<forall>p \<in> set ws. accounts l (player_id p) \<noteq> None \<and> \<not> has_key (player_id p) ''prize'' (match_id m) l \<Longrightarrow>
   \<exists>ys. txns (credit_all m ws l) = txns l @ ys \<and>
        map tx_sig ys = map (\<lambda>p. (player_id p, ''prize'', Some (match_id m), winnings_of p))
                          (filter (\<lambda>p. 0 < winnings_of p) ws)"
proof (induction ws arbitrary: l)
  case Nil
  then show ?case by (simp add: credit_all_def)
next
  case (Cons p ws)
  define l1 where "l1 = (if 0 < winnings_of p
                  then creditPrize (player_id p) (winnings_of p) (Some (lobbyType m)) (Some (match_id m)) (Some (place_of p)) l
                  else l)"
  have p: "accounts l (player_id p) \<noteq> None" "\<not> has_key (player_id p) ''prize'' (match_id m) l"
    using Cons.prems(2) by simp_all
  note st = credit_step [OF p, folded l1_def]
  have eq: "credit_all m (p # ws) l = credit_all m ws l1" by (simp add: credit_all_def l1_def)
  have "\<forall>q \<in> set ws. accounts l1 (player_id q) \<noteq> None \<and> \<not> has_key (player_id q) ''prize'' (match_id m) l1"
  proof
    fix q
    assume q: "q \<in> set ws"
    then have "player_id q \<noteq> player_id p" using Cons.prems(1) by (force simp: image_iff)
    then show "accounts l1 (player_id q) \<noteq> None \<and> \<not> has_key (player_id q) ''prize'' (match_id m) l1"
      using st Cons.prems(2) q by simp
  qed
  then have "\<exists>zs. txns (credit_all m ws l1) = txns l1 @ zs \<and>
      map tx_sig zs = map (\<lambda>p. (player_id p, ''prize'', Some (match_id m), winnings_of p)) (filter (\<lambda>p. 0 < winnings_of p) ws)"
    using Cons.IH [of l1] Cons.prems(1) by simp
  then obtain zs where z: "txns (credit_all m ws l1) = txns l1 @ zs"
    "map tx_sig zs = map (\<lambda>p. (player_id p, ''prize'', Some (match_id m), winnings_of p)) (filter (\<lambda>p. 0 < winnings_of p) ws)"
    by blast
  obtain ys where y: "txns l1 = txns l @ ys"
    "map tx_sig ys = (if 0 < winnings_of p then [(player_id p, ''prize'', Some (match_id m), winnings_of p)] else [])"
    using st by blast
  show ?case using z y eq by (intro exI [of _ "ys @ zs"]) auto
qed

text \<open>The allocator returns the players' ids, each as often as it was given.\<close>

lemma ranked_ids: "mset (map player_id (rankAndAllocateWinnings ps pool ms)) = mset (map player_id ps)"
proof -
  obtain n b where R: "rankAndAllocateWinnings ps pool ms = allocate_bands n b 0 (score_order ps)"
    by (rule rankAndAllocateWinnings_obtain)
  have ids: "\<And>qs. map player_id qs = map player_id (map strip qs)" by (simp add: strip_def)
  have "map player_id (allocate_bands n b 0 (score_order ps)) = map player_id (score_order ps)"
    by (metis ids strip_allocate_bands)
  then show ?thesis by (simp add: R score_order_def mset_map)
qed

text \<open>Updates that keep every seat keep the user ids, the payments and who is active.\<close>

lemma seat_kept_refl [simp]: "seat_kept p p"
  by (simp add: seat_kept_def)

lemma find_seat_kept:
  "list_all2 seat_kept ps ps' \<Longrightarrow> find (\<lambda>p. player_id p = v) ps' = Some p' \<Longrightarrow>
   \<exists>p. find (\<lambda>p. player_id p = v) ps = Some p \<and> seat_kept p p'"
  by (induction ps ps' rule: list_all2_induct) (auto simp: seat_kept_def split: if_splits)

lemma active_seat_kept:
  assumes "list_all2 seat_kept (players m) (players m')" "status m' = status m" "active_for v m'"
  shows "active_for v m"
proof -
  obtain p' where "find_player m' v = Some p'" "submittedAt p' = None"
    using assms(3) by (auto simp: active_for_def split: option.splits)
  then obtain p where "find_player m v = Some p" "seat_kept p p'"
    using find_seat_kept [OF assms(1)] by (auto simp: find_player_def)
  then show ?thesis
    using assms(2,3) \<open>submittedAt p' = None\<close> by (auto simp: active_for_def seat_kept_def)
qed

lemma seat_kept_ids: "list_all2 seat_kept ps ps' \<Longrightarrow> map player_id ps' = map player_id ps"
  by (induction ps ps' rule: list_all2_induct) (auto simp: seat_kept_def)

lemma seat_kept_paid:
  "list_all2 seat_kept ps ps' \<Longrightarrow> p' \<in> set ps' \<Longrightarrow> \<exists>p \<in> set ps. seat_kept p p'"
  by (induction ps ps' rule: list_all2_induct) auto

lemma upd_first_kept:
  "(\<And>p. seat_kept p (f p)) \<Longrightarrow> list_all2 seat_kept ps (upd_first u f ps)"
  by (induction ps) (auto simp: list_all2_refl)

lemma freeze_kept [simp]: "seat_kept p (freeze ws b t now p)"
  by (simp add: seat_kept_def freeze_def)

lemma words_kept [simp]: "seat_kept p (p\<lparr>words := ws\<rparr>)"
  by (simp add: seat_kept_def)

lemma find_filter_other:
  "v \<noteq> u \<Longrightarrow> find (\<lambda>p. player_id p = v) (filter (\<lambda>p. player_id p \<noteq> u) ps) = find (\<lambda>p. player_id p = v) ps"
  by (induction ps) auto

lemma find_filter_same:
  "find (\<lambda>p. player_id p = u) (filter (\<lambda>p. player_id p \<noteq> u) ps) = None"
  by (induction ps) auto

text \<open>After \<open>leave\<close> filters a user out, a user active in the match was active before.\<close>

lemma active_filter:
  assumes "active_for v (m\<lparr>players := filter (\<lambda>p. player_id p \<noteq> u) (players m)\<rparr>)"
  shows "v \<noteq> u \<and> active_for v m"
proof -
  have "v \<noteq> u"
    using assms find_filter_same [of u "players m"] by (auto simp: active_for_def find_player_def)
  then show ?thesis using assms find_filter_other [of v u "players m"] by (simp add: active_for_def find_player_def)
qed

text \<open>Settlement marks the match completed under the same id, keeps its players and
  its expiry, leaves the store alone and only appends to the journal.\<close>

lemma settle_facts:
  assumes "settle cfgs now m w = (m', w')"
  shows "match_id m' = match_id m \<and> status m' = Completed \<and> autoCompleteAt m' = autoCompleteAt m \<and>
         players m' = players m \<and> w_store w' = w_store w \<and> grows (w_ledger w) (w_ledger w')"
  using assms credit_all_grows by (auto simp: settle_def Let_def split: if_splits)

lemma new_match_id_inj: "new_match_id lt1 now = new_match_id lt2 now \<longleftrightarrow> lt1 = lt2"
  by (simp add: new_match_id_def)

lemma find_upd_first:
  "find (\<lambda>p. player_id p = u) ps = Some p \<Longrightarrow> (\<And>q. player_id (f q) = player_id q) \<Longrightarrow>
   find (\<lambda>p. player_id p = u) (upd_first u f ps) = Some (f p)"
  by (induction ps) auto

lemma length_upd_first [simp]: "length (upd_first u f ps) = length ps"
  by (induction ps) auto

lemmas world_eval_defs = demo_world_def demo_match_def demo_cfgs_def demo_cfg_def empty_store_def
  repo_save_def repo_get_def index_players_def sadd_def new_player_def find_player_def cfg_or_def
  player_deadline_def

lemma demo_submitted_store: "repo_get (w_store demo_submitted) ''classic-1'' = Some demo_submitted_match"
  by (simp add: demo_submitted_def demo_submitted_match_def submit_def world_eval_defs accepted_words_def
      base_score_def time_bonus_def Let_def all_submitted_def persist_def repo_get_save)

section \<open>Properties\<close>

text \<open>The duplicate removal of the submit handler, \<open>Array.from(new Set(ws))\<close>,
  is the library's \<open>remdups\<close> taken from the right: it keeps the first occurrence of
  every word, in order.\<close>

theorem dedup_remdups: "dedup xs = rev (remdups (rev xs))"
proof (induction xs rule: dedup.induct)
  case 1
  then show ?case by simp
next
  case (2 w ws)
  have "rev (remdups (rev (w # ws))) = w # rev (remdups (rev (filter (\<lambda>v. v \<noteq> w) ws)))"
    by (simp add: remdups_snoc rev_filter)
  then show ?case using 2 by simp
qed

text \<open>With a nonnegative rate and cap, the time bonus lies between 0 and the
  cap, and is 0 once the deadline has passed.\<close>

theorem time_bonus_bounds:
  assumes "0 \<le> perSecond" "0 \<le> mx"
  shows "0 \<le> time_bonus perSecond (Some mx) deadline now \<and> time_bonus perSecond (Some mx) deadline now \<le> mx \<and>
         (deadline \<le> now \<longrightarrow> time_bonus perSecond (Some mx) deadline now = 0)"
  using assms by (simp add: time_bonus_def)

text \<open>C14: A submission after the player's deadline is refused with 403 and
  changes nothing but the dictionary's state: the score, the match and the ledger are
  as they were.\<close>

theorem submit_deadline_passed:
  assumes "u \<noteq> []" "repo_get (w_store w) mid = Some m" "find_player m u = Some p"
    "player_deadline m p < now"
  shows "submit file cfgs now mid u ws w =
           (Failure 403 ''deadline passed'', w\<lparr>w_dict := initDictionary file (w_dict w)\<rparr>)"
  using assms by (simp add: submit_def Let_def)

text \<open>C27: The submit handler never looks at \<open>submittedAt\<close> (lines 401-505): a
  player who has already submitted and submits again before the deadline, in a match that
  is not yet full, is answered with a new score, and the stored seat then holds the new
  submission time and the new words. Spec section 8 requires a second submission to leave
  the frozen score unchanged.\<close>

theorem submit_twice:
  assumes "u \<noteq> []" "repo_get (w_store w) mid = Some m" "status m = Waiting"
    "length (players m) < cfg_or cfgs (lobbyType m) cfg_maxPlayers 7"
    "find_player m u = Some p" "submittedAt p \<noteq> None" "now \<le> player_deadline m p"
  shows "(\<exists>sc. fst (submit fc cfgs now mid u ws w) = Reply (sc, False)) \<and>
         (\<exists>m' p'. repo_get (w_store (snd (submit fc cfgs now mid u ws w))) (match_id m) = Some m' \<and>
            find_player m' u = Some p' \<and> submittedAt p' = Some now \<and>
            words p' = accepted_words (initDictionary fc (w_dict w)) (match_board m) ws)"
proof -
  define U where "U = accepted_words (initDictionary fc (w_dict w)) (match_board m) ws"
  define B where "B = time_bonus (cfg_or cfgs (lobbyType m) (\<lambda>c. or_default (cfg_timeBonusPerSecond c) 0) 0)
        (cfg_or cfgs (lobbyType m) cfg_timeBonusMaxPoints None) (player_deadline m p) now"
  define m1 where "m1 = m\<lparr>players := upd_first u (freeze U (base_score U) B now) (players m)\<rparr>"
  have ns: "\<not> all_submitted cfgs m1" using assms(4) by (simp add: all_submitted_def m1_def)
  have eq: "submit fc cfgs now mid u ws w =
              (Reply (base_score U + B, False),
               w\<lparr>w_dict := initDictionary fc (w_dict w), w_store := repo_save m1 (w_store w)\<rparr>)"
    using assms(1-3,5,7) ns by (simp add: submit_def Let_def U_def B_def m1_def persist_def)
  have "find_player m1 u = Some (freeze U (base_score U) B now p)"
    using assms(5) find_upd_first [of u "players m" p] by (simp add: find_player_def m1_def freeze_def)
  then show ?thesis using eq by (simp add: repo_get_save m1_def freeze_def U_def)
qed
text \<open>C29: When the user who leaves is the only player of the active match the
  handler finds, it answers success but only clears the lobby's waiting pointer (lines
  309-314): no stored match changes, and the user stays seated and active in that match.\<close>

theorem leave_solo:
  assumes "u \<noteq> []" "find (active_for u) (listByUser (w_store w) u) = Some am"
    "list_all (\<lambda>p. player_id p = u) (players am)"
  shows "fst (leave u w) = Reply () \<and> listAll (w_store (snd (leave u w))) = listAll (w_store w) \<and>
         am \<in> set (listAll (w_store (snd (leave u w)))) \<and> active_for u am"
proof -
  have "filter (\<lambda>p. player_id p \<noteq> u) (players am) = []" using assms(3) by (simp add: list_all_iff)
  then have "leave u w = (Reply (), w\<lparr>w_store := clearWaiting (lobbyType am) (w_store w)\<rparr>)"
    using assms(1,2) by (simp add: leave_def)
  moreover have "am \<in> set (listAll (w_store w))" "active_for u am"
    using find_Some_set [OF assms(2)] listByUser_sound by blast+
  ultimately show ?thesis by simp
qed

section \<open>Witnesses\<close>

theorem time_bonus_bounds_witness:
  "0 \<le> time_bonus 1 (Some 100) 120000 10000 \<and> time_bonus 1 (Some 100) 120000 10000 \<le> 100 \<and>
   time_bonus 1 (Some 100) 120000 10000 = 100"
  using time_bonus_bounds [of 1 100 120000 10000] by (simp add: time_bonus_def)

theorem submit_deadline_passed_witness:
  "repo_get (w_store demo_world) ''classic-1'' = Some demo_match \<and>
   find_player demo_match ''alice'' = Some (new_player ''alice'' ''Alice'' 0 120000 True) \<and>
   fst (submit None demo_cfgs 200000 ''classic-1'' ''alice'' [''cat''] demo_world) = Failure 403 ''deadline passed''"
proof -
  have g: "repo_get (w_store demo_world) ''classic-1'' = Some demo_match"
    and f: "find_player demo_match ''alice'' = Some (new_player ''alice'' ''Alice'' 0 120000 True)"
    and d: "player_deadline demo_match (new_player ''alice'' ''Alice'' 0 120000 True) < 200000"
    by (simp_all add: world_eval_defs)
  show ?thesis
    using submit_deadline_passed [of "''alice''" demo_world "''classic-1''" demo_match, OF _ g f d] g f by simp
qed

theorem submit_twice_witness:
  "''alice'' \<noteq> [] \<and> repo_get (w_store demo_submitted) ''classic-1'' = Some demo_submitted_match \<and>
   status demo_submitted_match = Waiting \<and>
   length (players demo_submitted_match) < cfg_or demo_cfgs (lobbyType demo_submitted_match) cfg_maxPlayers 7 \<and>
   find_player demo_submitted_match ''alice'' = Some (freeze [] 0 100 10000 (new_player ''alice'' ''Alice'' 0 120000 True)) \<and>
   submittedAt (freeze [] 0 100 10000 (new_player ''alice'' ''Alice'' 0 120000 True)) \<noteq> None \<and>
   60000 \<le> player_deadline demo_submitted_match (freeze [] 0 100 10000 (new_player ''alice'' ''Alice'' 0 120000 True)) \<and>
   (\<exists>sc. fst (submit None demo_cfgs 60000 ''classic-1'' ''alice'' [] demo_submitted) = Reply (sc, False)) \<and>
   (\<exists>m' p'. repo_get (w_store (snd (submit None demo_cfgs 60000 ''classic-1'' ''alice'' [] demo_submitted)))
               (match_id demo_submitted_match) = Some m' \<and>
            find_player m' ''alice'' = Some p' \<and> submittedAt p' = Some 60000 \<and>
            words p' = accepted_words (initDictionary None (w_dict demo_submitted)) (match_board demo_submitted_match) [])"
proof -
  have h: "status demo_submitted_match = Waiting"
    "length (players demo_submitted_match) < cfg_or demo_cfgs (lobbyType demo_submitted_match) cfg_maxPlayers 7"
    "find_player demo_submitted_match ''alice'' = Some (freeze [] 0 100 10000 (new_player ''alice'' ''Alice'' 0 120000 True))"
    "submittedAt (freeze [] 0 100 10000 (new_player ''alice'' ''Alice'' 0 120000 True)) \<noteq> None"
    "60000 \<le> player_deadline demo_submitted_match (freeze [] 0 100 10000 (new_player ''alice'' ''Alice'' 0 120000 True))"
    by (simp_all add: demo_submitted_match_def world_eval_defs cfg_or_def find_player_def freeze_def
        new_player_def player_deadline_def)
  have "''alice'' \<noteq> []" by simp
  note t = submit_twice [where fc = None and ws = "[]", OF this demo_submitted_store h]
  from this demo_submitted_store h show ?thesis by blast
qed

theorem leave_solo_witness:
  "''alice'' \<noteq> [] \<and> find (active_for ''alice'') (listByUser (w_store demo_world) ''alice'') = Some demo_match \<and>
   list_all (\<lambda>p. player_id p = ''alice'') (players demo_match) \<and>
   fst (leave ''alice'' demo_world) = Reply () \<and>
   listAll (w_store (snd (leave ''alice'' demo_world))) = listAll (w_store demo_world) \<and>
   demo_match \<in> set (listAll (w_store (snd (leave ''alice'' demo_world)))) \<and> active_for ''alice'' demo_match"
proof -
  have f: "find (active_for ''alice'') (listByUser (w_store demo_world) ''alice'') = Some demo_match"
    by (simp add: world_eval_defs listByUser_def map_filter_def active_for_def)
  have a: "list_all (\<lambda>p. player_id p = ''alice'') (players demo_match)"
    by (simp add: demo_match_def new_player_def)
  have u: "''alice'' \<noteq> []" by simp
  from leave_solo [OF u f a] u f a show ?thesis by blast
qed
end
