(* ===== verification/Sweep.thy ===== *)
theory Sweep
  imports Lifecycle
begin

text \<open>
  The reconciliation sweep of src/backend/src/server.ts: every ten seconds the tick
  reads all stored matches and, for each one not completed, auto-submits the saved
  draft of every player past the deadline (\<open>autoSubmitWordsForPlayer\<close>), completes
  and settles the match when it is full and everybody has submitted
  (\<open>processMatchTimeout\<close>), writes it back or removes it, and removes without
  settlement a match past its hard expiry \<open>autoCompleteAt\<close>.

  The completion branch of \<open>processMatchTimeout\<close> (lines 123-182) does what the submit
  handler's completion does, field for field: the history row with the ranked players,
  then the credits and the settlement stamp unless it is already set. It is therefore
  the engine's \<open>settle\<close>. The flag \<open>__tickRunning\<close>, which skips a tick while the
  previous one still runs, is not modelled: a tick is one step.
\<close>

section \<open>Definitions\<close>

text \<open>\<open>autoSubmitWordsForPlayer\<close>, lines 66-95, with the dictionary already initialised.\<close>

definition autoSubmitWordsForPlayer :: "dict_state \<Rightarrow> board \<Rightarrow> ms \<Rightarrow> player \<Rightarrow> player" where
  "autoSubmitWordsForPlayer d b now p =
     (if submittedAt p \<noteq> None then p
      else (let unique = accepted_words d b (words p) in freeze unique (base_score unique) 0 now p))"

text \<open>A player whose deadline has come without a submission (lines 104-108).\<close>

definition timed_out :: "ms \<Rightarrow> internal_match \<Rightarrow> player \<Rightarrow> bool" where
  "timed_out now m p \<longleftrightarrow> submittedAt p = None \<and> player_deadline m p \<le> now"

text \<open>The loop of lines 103-114 over the players, threading the dictionary's module
  state through \<open>initDictionary\<close>.\<close>

fun auto_submit_all ::
  "string option \<Rightarrow> ms \<Rightarrow> internal_match \<Rightarrow> dict_state \<Rightarrow> player list \<Rightarrow> player list \<times> dict_state" where
  "auto_submit_all file now m d [] = ([], d)"
| "auto_submit_all file now m d (p # ps) =
     (if timed_out now m p
      then (let d1 = initDictionary file d;
                (ps', d2) = auto_submit_all file now m d1 ps
            in (autoSubmitWordsForPlayer d1 (match_board m) now p # ps', d2))
      else (let (ps', d2) = auto_submit_all file now m d ps in (p # ps', d2)))"

text \<open>\<open>processMatchTimeout\<close>, lines 97-185: whether the match was processed, the match
  and the world.\<close>

definition processMatchTimeout ::
  "string option \<Rightarrow> lobbies \<Rightarrow> ms \<Rightarrow> internal_match \<Rightarrow> world \<Rightarrow> bool \<times> internal_match \<times> world" where
  "processMatchTimeout file cfgs now m w =
     (let (ps', d) = auto_submit_all file now m (w_dict w) (players m);
          anyTimedOut = list_ex (timed_out now m) (players m);
          m1 = m\<lparr>players := ps'\<rparr>;
          w1 = w\<lparr>w_dict := d\<rparr>
      in if all_submitted cfgs m1 \<and> status m1 \<noteq> Completed
         then (let (m2, w2) = settle cfgs now m1 w1 in (True, m2, w2))
         else (anyTimedOut, m1, w1))"

text \<open>The body of the tick's loop for one match of the snapshot, lines 196-221.\<close>

definition tick_match :: "string option \<Rightarrow> lobbies \<Rightarrow> ms \<Rightarrow> internal_match \<Rightarrow> world \<Rightarrow> world" where
  "tick_match file cfgs now m w =
     (if status m = Completed then w
      else
        (let (processed, m1, w1) = processMatchTimeout file cfgs now m w;
             w2 = (if processed then w1\<lparr>w_store := persist m1 (w_store w1)\<rparr> else w1);
             isCompleted = (processed \<and> status m1 = Completed)
         in if \<not> isCompleted \<and> autoCompleteAt m1 \<le> now \<and> status m1 \<noteq> Completed
            then w2\<lparr>w_store := repo_remove (match_id m1) (w_store w2)\<rparr>
            else w2))"

text \<open>One tick, lines 188-230: the loop over the snapshot \<open>listAll()\<close>.\<close>

definition tick :: "string option \<Rightarrow> lobbies \<Rightarrow> ms \<Rightarrow> world \<Rightarrow> world" where
  "tick file cfgs now w = fold (tick_match file cfgs now) (listAll (w_store w)) w"

section \<open>Lemmas\<close>

text \<open>Auto-submission keeps every seat, so it keeps the number of players.\<close>

lemma autoSubmit_kept [simp]: "seat_kept p (autoSubmitWordsForPlayer d b now p)"
  by (simp add: autoSubmitWordsForPlayer_def Let_def)

lemma auto_submit_all_kept: "list_all2 seat_kept ps (fst (auto_submit_all file now m d ps))"
  by (induction ps arbitrary: d) (simp_all add: Let_def split_def)

lemma auto_submit_all_length [simp]: "length (fst (auto_submit_all file now m d ps)) = length ps"
  using auto_submit_all_kept list_all2_lengthD by metis

text \<open>\<open>processMatchTimeout\<close> keeps the id and the expiry of the match, does not touch the
  store, only appends to the journal, and completes the match only when it says it
  processed it.\<close>

lemma processMatchTimeout_facts:
  assumes "processMatchTimeout file cfgs now m w = (pr, m1, w1)"
  shows "match_id m1 = match_id m \<and> autoCompleteAt m1 = autoCompleteAt m \<and> w_store w1 = w_store w \<and>
         grows (w_ledger w) (w_ledger w1) \<and> (status m1 = status m \<or> pr \<and> status m1 = Completed)"
proof -
  obtain ps' d where a: "auto_submit_all file now m (w_dict w) (players m) = (ps', d)"
    by (cases "auto_submit_all file now m (w_dict w) (players m)")
  show ?thesis
  proof (cases "all_submitted cfgs (m\<lparr>players := ps'\<rparr>) \<and> status m \<noteq> Completed")
    case True
    obtain m2 w2 where s: "settle cfgs now (m\<lparr>players := ps'\<rparr>) (w\<lparr>w_dict := d\<rparr>) = (m2, w2)"
      by (cases "settle cfgs now (m\<lparr>players := ps'\<rparr>) (w\<lparr>w_dict := d\<rparr>)")
    then have "pr \<and> m1 = m2 \<and> w1 = w2" using assms a True by (simp add: processMatchTimeout_def)
    then show ?thesis using settle_facts [OF s] by simp
  next
    case False
    then have "m1 = m\<lparr>players := ps'\<rparr> \<and> w1 = w\<lparr>w_dict := d\<rparr>"
      using assms a by (auto simp: processMatchTimeout_def Let_def split: if_splits)
    then show ?thesis by simp
  qed
qed

text \<open>Either \<open>processMatchTimeout\<close> completes the match, or the match it returns is the
  same match with the same seats.\<close>

lemma processMatchTimeout_cases:
  assumes "processMatchTimeout file cfgs now m w = (pr, m1, w1)"
  shows "status m1 = Completed \<or> (\<exists>ps'. m1 = m\<lparr>players := ps'\<rparr> \<and> list_all2 seat_kept (players m) ps')"
proof -
  obtain ps' d where a: "auto_submit_all file now m (w_dict w) (players m) = (ps', d)"
    by (cases "auto_submit_all file now m (w_dict w) (players m)")
  have kept: "list_all2 seat_kept (players m) ps'" using auto_submit_all_kept [of "players m"] a by (metis fst_conv)
  show ?thesis
  proof (cases "all_submitted cfgs (m\<lparr>players := ps'\<rparr>) \<and> status m \<noteq> Completed")
    case True
    obtain m2 w2 where s: "settle cfgs now (m\<lparr>players := ps'\<rparr>) (w\<lparr>w_dict := d\<rparr>) = (m2, w2)"
      by (cases "settle cfgs now (m\<lparr>players := ps'\<rparr>) (w\<lparr>w_dict := d\<rparr>)")
    then have "m1 = m2" using assms a True by (simp add: processMatchTimeout_def)
    then show ?thesis using settle_facts [OF s] by simp
  next
    case False
    then have "m1 = m\<lparr>players := ps'\<rparr>" using assms a by (auto simp: processMatchTimeout_def Let_def split: if_splits)
    then show ?thesis using kept by blast
  qed
qed

text \<open>One step of the tick reads and writes only the document of its own match.\<close>

lemma tick_match_other:
  assumes "match_id m \<noteq> x"
  shows "repo_get (w_store (tick_match file cfgs now m w)) x = repo_get (w_store w) x"
proof -
  obtain pr m1 w1 where p: "processMatchTimeout file cfgs now m w = (pr, m1, w1)"
    by (cases "processMatchTimeout file cfgs now m w")
  note f = processMatchTimeout_facts [OF p]
  then show ?thesis using assms p
    by (auto simp: tick_match_def persist_def repo_get_save repo_get_remove)
qed

text \<open>A step on a match that is not completed and past its hard expiry leaves no document
  under its id: the match is completed and removed, or removed as expired.\<close>

lemma tick_match_expired:
  assumes "status m \<noteq> Completed" "autoCompleteAt m \<le> now"
  shows "repo_get (w_store (tick_match file cfgs now m w)) (match_id m) = None"
proof -
  obtain pr m1 w1 where p: "processMatchTimeout file cfgs now m w = (pr, m1, w1)"
    by (cases "processMatchTimeout file cfgs now m w")
  note f = processMatchTimeout_facts [OF p]
  then show ?thesis using assms p
    by (auto simp: tick_match_def persist_def repo_get_save repo_get_remove)
qed

lemma fold_tick_other:
  "\<forall>m \<in> set ms. match_id m \<noteq> x \<Longrightarrow>
   repo_get (w_store (fold (tick_match file cfgs now) ms w)) x = repo_get (w_store w) x"
  by (induction ms arbitrary: w) (simp_all add: tick_match_other)

lemma fold_tick_expired:
  assumes "m \<in> set ms" "distinct (map match_id ms)" "status m \<noteq> Completed" "autoCompleteAt m \<le> now"
  shows "repo_get (w_store (fold (tick_match file cfgs now) ms w)) (match_id m) = None"
  using assms
proof (induction ms arbitrary: w)
  case Nil
  then show ?case by simp
next
  case (Cons m' ms)
  show ?case
  proof (cases "m' = m")
    case True
    then have "match_id m \<notin> match_id ` set ms" using Cons.prems(2) by simp
    then have "\<forall>y \<in> set ms. match_id y \<noteq> match_id m" by (auto simp: image_iff)
    then show ?thesis using True fold_tick_other tick_match_expired [OF Cons.prems(3,4)] by simp
  next
    case False
    then show ?thesis using Cons by simp
  qed
qed

text \<open>After auto-submission no player of the match is past the deadline without a
  submission.\<close>

lemma timed_out_players [simp]: "timed_out now ((m :: internal_match)\<lparr>players := ps\<rparr>) p = timed_out now m p"
  by (simp add: timed_out_def player_deadline_def split: option.splits)

lemma auto_submit_all_done:
  "\<forall>p \<in> set (fst (auto_submit_all file now m d ps)). \<not> timed_out now m p"
  by (induction ps arbitrary: d)
     (simp_all add: Let_def split_def timed_out_def autoSubmitWordsForPlayer_def freeze_def)

lemma processMatchTimeout_done:
  assumes "processMatchTimeout file cfgs now m w = (pr, m1, w1)" "status m1 \<noteq> Completed"
  shows "(\<forall>p \<in> set (players m1). \<not> timed_out now m1 p) \<and> (\<not> pr \<longrightarrow> (\<forall>p \<in> set (players m). \<not> timed_out now m p))"
proof -
  obtain ps' d where a: "auto_submit_all file now m (w_dict w) (players m) = (ps', d)"
    by (cases "auto_submit_all file now m (w_dict w) (players m)")
  have fin: "\<forall>p \<in> set ps'. \<not> timed_out now m p" using auto_submit_all_done a by (metis fst_conv)
  show ?thesis
  proof (cases "all_submitted cfgs (m\<lparr>players := ps'\<rparr>) \<and> status m \<noteq> Completed")
    case True
    obtain m2 w2 where s: "settle cfgs now (m\<lparr>players := ps'\<rparr>) (w\<lparr>w_dict := d\<rparr>) = (m2, w2)"
      by (cases "settle cfgs now (m\<lparr>players := ps'\<rparr>) (w\<lparr>w_dict := d\<rparr>)")
    then have "m1 = m2" using assms(1) a True by (simp add: processMatchTimeout_def)
    then show ?thesis using settle_facts [OF s] assms(2) by simp
  next
    case False
    then have "m1 = m\<lparr>players := ps'\<rparr>" "pr = list_ex (timed_out now m) (players m)"
      using assms(1) a by (auto simp: processMatchTimeout_def Let_def split: if_splits)
    then show ?thesis using fin by (simp add: list_ex_iff)
  qed
qed

lemma tick_match_done:
  assumes g: "repo_get (w_store w) (match_id m) = Some m" and st: "status m \<noteq> Completed"
    and g': "repo_get (w_store (tick_match file cfgs now m w)) (match_id m) = Some m'"
    and p: "p \<in> set (players m')"
  shows "\<not> timed_out now m' p"
proof -
  obtain pr m1 w1 where pm: "processMatchTimeout file cfgs now m w = (pr, m1, w1)"
    by (cases "processMatchTimeout file cfgs now m w")
  note f = processMatchTimeout_facts [OF pm]
  show ?thesis
  proof (cases pr)
    case True
    then have "status m1 \<noteq> Completed \<and> m' = m1"
      using g' st pm f by (auto simp: tick_match_def persist_def repo_get_save repo_get_remove Let_def split: if_splits)
    then show ?thesis using processMatchTimeout_done [OF pm] p by simp
  next
    case False
    then have "m' = m \<and> status m1 \<noteq> Completed"
      using g g' st pm f by (auto simp: tick_match_def repo_get_remove Let_def split: if_splits)
    then show ?thesis using processMatchTimeout_done [OF pm] False p by simp
  qed
qed

lemma fold_tick_done:
  "distinct (map match_id ms) \<Longrightarrow>
   \<forall>m \<in> set ms. repo_get (w_store w) (match_id m) = Some m \<and> status m \<noteq> Completed \<Longrightarrow>
   x \<in> match_id ` set ms \<Longrightarrow> repo_get (w_store (fold (tick_match file cfgs now) ms w)) x = Some m' \<Longrightarrow>
   p \<in> set (players m') \<Longrightarrow> \<not> timed_out now m' p"
proof (induction ms arbitrary: w)
  case Nil
  then show ?case by simp
next
  case (Cons m ms)
  let ?w' = "tick_match file cfgs now m w"
  have rest: "\<forall>y \<in> set ms. repo_get (w_store ?w') (match_id y) = Some y \<and> status y \<noteq> Completed"
  proof
    fix y
    assume y: "y \<in> set ms"
    then have "match_id m \<noteq> match_id y" using Cons.prems(1) by (auto simp: image_iff)
    then show "repo_get (w_store ?w') (match_id y) = Some y \<and> status y \<noteq> Completed"
      using tick_match_other Cons.prems(2) y by simp
  qed
  show ?case
  proof (cases "x = match_id m")
    case True
    then have "\<forall>y \<in> set ms. match_id y \<noteq> x" using Cons.prems(1) by (auto simp: image_iff)
    then have "repo_get (w_store ?w') (match_id m) = Some m'" using Cons.prems(4) fold_tick_other True by simp
    moreover have "repo_get (w_store w) (match_id m) = Some m" "status m \<noteq> Completed"
      using Cons.prems(2) by simp_all
    ultimately show ?thesis using tick_match_done Cons.prems(5) by blast
  next
    case False
    then show ?thesis using Cons.IH [OF _ rest] Cons.prems(1,3,4,5) by simp
  qed
qed

section \<open>Properties\<close>

text \<open>C7: Every match that is not completed and whose hard expiry
  \<open>autoCompleteAt\<close> has come is gone from the store after the next tick, whatever its
  players did: it is completed and removed, or removed as expired.\<close>

theorem tick_expires:
  assumes "index_ok (w_store w)" "m \<in> set (listAll (w_store w))"
    "status m \<noteq> Completed" "autoCompleteAt m \<le> now"
  shows "repo_get (w_store (tick file cfgs now w)) (match_id m) = None"
  unfolding tick_def using fold_tick_expired [OF assms(2) listAll_distinct_ids [OF assms(1)] assms(3,4)] .

text \<open>C28: A match that never filled is removed at its hard expiry without
  settlement: no history row is written and no journal row or balance changes, so the
  entry fees its players paid are kept and never refunded.\<close>

theorem tick_match_unfilled:
  assumes "status m \<noteq> Completed" "autoCompleteAt m \<le> now"
    "length (players m) \<noteq> cfg_or cfgs (lobbyType m) cfg_maxPlayers 7"
  shows "repo_get (w_store (tick_match file cfgs now m w)) (match_id m) = None \<and>
         w_ledger (tick_match file cfgs now m w) = w_ledger w \<and>
         w_history (tick_match file cfgs now m w) = w_history w"
proof -
  obtain ps' d where a: "auto_submit_all file now m (w_dict w) (players m) = (ps', d)"
    by (cases "auto_submit_all file now m (w_dict w) (players m)")
  have "length ps' = length (players m)"
    using auto_submit_all_length a by (metis fst_conv)
  then have "\<not> all_submitted cfgs (m\<lparr>players := ps'\<rparr>)" using assms(3) by (simp add: all_submitted_def)
  then have "processMatchTimeout file cfgs now m w =
               (list_ex (timed_out now m) (players m), m\<lparr>players := ps'\<rparr>, w\<lparr>w_dict := d\<rparr>)"
    using a by (simp add: processMatchTimeout_def)
  then show ?thesis using assms(1,2) by (simp add: tick_match_def persist_def repo_get_save repo_get_remove)
qed

text \<open>C8: After a tick over a store without completed matches, no stored
  player is past the deadline without a submission: every such player was auto-submitted
  with the saved draft (specification: a player who does not submit by the deadline is
  submitted automatically).\<close>

theorem tick_autosubmits:
  assumes "index_ok (w_store w)" "\<forall>m \<in> set (listAll (w_store w)). status m \<noteq> Completed"
    "repo_get (w_store (tick file cfgs now w)) x = Some m'" "p \<in> set (players m')"
  shows "\<not> timed_out now m' p"
proof (cases "x \<in> match_id ` set (listAll (w_store w))")
  case True
  have all: "\<forall>m \<in> set (listAll (w_store w)). repo_get (w_store w) (match_id m) = Some m \<and> status m \<noteq> Completed"
    using listAll_repo_get [OF assms(1)] assms(2) by blast
  from fold_tick_done [OF listAll_distinct_ids [OF assms(1)] all True] assms(3,4) show ?thesis
    by (simp add: tick_def)
next
  case False
  have "repo_get (w_store w) x = None"
  proof (rule ccontr)
    assume "repo_get (w_store w) x \<noteq> None"
    then obtain m where "repo_get (w_store w) x = Some m" by blast
    then show False using repo_get_listAll [OF assms(1)] False by force
  qed
  moreover have "\<forall>m \<in> set (listAll (w_store w)). match_id m \<noteq> x" using False by blast
  ultimately show ?thesis using fold_tick_other assms(3) by (simp add: tick_def)
qed

section \<open>Witnesses\<close>

theorem tick_expires_witness:
  "index_ok (w_store demo_world) \<and> demo_match \<in> set (listAll (w_store demo_world)) \<and>
   repo_get (w_store (tick None demo_cfgs 3600000 demo_world)) ''classic-1'' = None"
proof -
  have ok: "index_ok (w_store demo_world)"
    using repo_save_index_ok [OF empty_store_index_ok] by (simp add: demo_world_def)
  have mem: "demo_match \<in> set (listAll (w_store demo_world))"
    by (simp add: world_eval_defs listAll_def)
  show ?thesis
    using tick_expires [OF ok mem, where ?file = None and cfgs = demo_cfgs and now = 3600000] ok mem by (simp add: demo_match_def)
qed

theorem tick_match_unfilled_witness:
  "status demo_match \<noteq> Completed \<and> autoCompleteAt demo_match \<le> 3600000 \<and>
   repo_get (w_store (tick_match None demo_cfgs 3600000 demo_match demo_world)) ''classic-1'' = None \<and>
   w_ledger (tick_match None demo_cfgs 3600000 demo_match demo_world) = demo_ledger"
  using tick_match_unfilled [where m = demo_match and now = 3600000 and cfgs = demo_cfgs and ?file = None
      and w = demo_world]
  by (simp add: world_eval_defs)

theorem tick_autosubmits_witness:
  "index_ok (w_store demo_world) \<and> listAll (w_store demo_world) = [demo_match] \<and> status demo_match = Waiting \<and>
   repo_get (w_store (tick None demo_cfgs 10000 demo_world)) ''classic-1'' = Some demo_match \<and>
   \<not> timed_out 10000 demo_match (new_player ''alice'' ''Alice'' 0 120000 True)"
proof -
  have ok: "index_ok (w_store demo_world)"
    using repo_save_index_ok [OF empty_store_index_ok] by (simp add: demo_world_def)
  have nc: "\<forall>m \<in> set (listAll (w_store demo_world)). status m \<noteq> Completed"
    by (simp add: world_eval_defs listAll_def)
  have g: "repo_get (w_store (tick None demo_cfgs 10000 demo_world)) ''classic-1'' = Some demo_match"
    by (simp add: tick_def tick_match_def processMatchTimeout_def timed_out_def all_submitted_def
        world_eval_defs listAll_def Let_def)
  have p: "new_player ''alice'' ''Alice'' 0 120000 True \<in> set (players demo_match)" by (simp add: demo_match_def)
  have l: "listAll (w_store demo_world) = [demo_match]" by (simp add: world_eval_defs listAll_def)
  show ?thesis using tick_autosubmits [OF ok nc g p] ok l g by (simp add: demo_match_def)
qed

end
