(* ===== verification/Engine.thy ===== *)
theory Engine
  imports Sweep
begin

text \<open>
  The engine as a whole: the requests the server answers (the five match handlers of
  src/backend/src/modules/matches.ts and the sweep's tick of src/backend/src/server.ts)
  as a datatype, one function \<open>serve\<close> that runs a request on the world, and the worlds
  reachable from an empty store when the requests are served one after the other. The
  invariant \<open>engine_inv\<close> holds of every such world: the store is consistent, every
  stored match is waiting, within its lobby's capacity, with distinct seated users who
  each paid the entry fee (an \<open>entryFee\<close> row of the journal for that user and match), and
  no user is active in two stored matches. The relation \<open>tame\<close> collects the changes
  every request other than a join makes to the world (saving a match, removing one,
  growing the journal) and keeps the part \<open>store_inv\<close> of the invariant that does not
  mention the other matches; theory \<open>Concurrency\<close> uses it for the interleaved server.
\<close>

section \<open>Requests\<close>

datatype request =
    Join ms lobby_type user_id "string option"
  | Leave user_id
  | SaveWords match_id user_id "string list"
  | Validate match_id user_id string
  | Submit ms match_id user_id "string list"
  | Tick ms
  | Init

text \<open>The lobby catalogue and the dictionary file are fixed for the run of the server.
  \<open>Init\<close> is the \<open>initDictionary()\<close> the server starts once it listens (server.ts,
  line 245): requests may come before it.\<close>

definition serve :: "lobbies \<Rightarrow> string option \<Rightarrow> request \<Rightarrow> world \<Rightarrow> world" where
  "serve cfgs fc r w =
     (case r of
        Join now lt u nameOpt \<Rightarrow> snd (join cfgs now lt u nameOpt w)
      | Leave u \<Rightarrow> snd (leave u w)
      | SaveWords mid u ws \<Rightarrow> snd (saveWords mid u ws w)
      | Validate mid u word \<Rightarrow> snd (validateWord fc mid u word w)
      | Submit now mid u ws \<Rightarrow> snd (submit fc cfgs now mid u ws w)
      | Tick now \<Rightarrow> tick fc cfgs now w
      | Init \<Rightarrow> w\<lparr>w_dict := initDictionary fc (w_dict w)\<rparr>)"

text \<open>Every request but a join changes the store only by writing back, emptying or removing
  matches it finds there.\<close>

definition is_join :: "request \<Rightarrow> bool" where
  "is_join r = (case r of Join _ _ _ _ \<Rightarrow> True | _ \<Rightarrow> False)"

text \<open>A server that starts with an empty store and any ledger.\<close>

definition start :: "ledger \<Rightarrow> world" where
  "start l = \<lparr>w_store = empty_store, w_ledger = l, w_history = [], w_dict = None\<rparr>"

inductive reach :: "lobbies \<Rightarrow> string option \<Rightarrow> world \<Rightarrow> bool" for cfgs fc where
  reach_start: "reach cfgs fc (start l)"
| reach_serve: "reach cfgs fc w \<Longrightarrow> reach cfgs fc (serve cfgs fc r w)"

section \<open>Invariant\<close>

text \<open>Every lobby of the catalogue seats at least one player.\<close>

definition cfgs_ok :: "lobbies \<Rightarrow> bool" where
  "cfgs_ok cfgs \<longleftrightarrow> (\<forall>t c. cfgs t = Some c \<longrightarrow> 1 \<le> cfg_maxPlayers c)"

definition match_ok :: "lobbies \<Rightarrow> ledger \<Rightarrow> internal_match \<Rightarrow> bool" where
  "match_ok cfgs l m \<longleftrightarrow>
     status m = Waiting \<and> endedAt m = None \<and>
     (case cfgs (lobbyType m) of None \<Rightarrow> False | Some c \<Rightarrow> length (players m) \<le> cfg_maxPlayers c) \<and>
     distinct (map player_id (players m)) \<and>
     list_all (\<lambda>p. player_id p \<noteq> [] \<and> paidEntry p \<and> has_key (player_id p) ''entryFee'' (match_id m) l) (players m)"

definition single_active :: "store \<Rightarrow> bool" where
  "single_active st \<longleftrightarrow>
     (\<forall>u m1 m2. m1 \<in> set (listAll st) \<longrightarrow> m2 \<in> set (listAll st) \<longrightarrow>
        active_for u m1 \<longrightarrow> active_for u m2 \<longrightarrow> match_id m1 = match_id m2)"

text \<open>The part of the invariant that concerns each stored match alone.\<close>

definition store_inv :: "lobbies \<Rightarrow> world \<Rightarrow> bool" where
  "store_inv cfgs w \<longleftrightarrow> index_ok (w_store w) \<and> list_all (match_ok cfgs (w_ledger w)) (listAll (w_store w))"

definition engine_inv :: "lobbies \<Rightarrow> world \<Rightarrow> bool" where
  "engine_inv cfgs w \<longleftrightarrow>
     index_ok (w_store w) \<and> list_all (match_ok cfgs (w_ledger w)) (listAll (w_store w)) \<and>
     single_active (w_store w)"

text \<open>The changes of the world that the handlers other than join make: a change of the
  ledger, the history or the dictionary that only adds journal rows; clearing a waiting
  pointer; removing a match; writing back a stored match with its seats kept, or with one
  user's seats dropped.\<close>

inductive tame :: "world \<Rightarrow> world \<Rightarrow> bool" where
  tame_refl: "tame w w"
| tame_side: "tame w w1 \<Longrightarrow> w_store w2 = w_store w1 \<Longrightarrow> grows (w_ledger w1) (w_ledger w2) \<Longrightarrow> tame w w2"
| tame_clear: "tame w w1 \<Longrightarrow> tame w (w1\<lparr>w_store := clearWaiting lt (w_store w1)\<rparr>)"
| tame_remove: "tame w w1 \<Longrightarrow> tame w (w1\<lparr>w_store := repo_remove mid (w_store w1)\<rparr>)"
| tame_kept: "tame w w1 \<Longrightarrow> m \<in> set (listAll (w_store w1)) \<Longrightarrow> list_all2 seat_kept (players m) ps' \<Longrightarrow>
    tame w (w1\<lparr>w_store := repo_save (m\<lparr>players := ps'\<rparr>) (w_store w1)\<rparr>)"
| tame_drop: "tame w w1 \<Longrightarrow> m \<in> set (listAll (w_store w1)) \<Longrightarrow>
    tame w (w1\<lparr>w_store := repo_save (m\<lparr>players := filter (\<lambda>p. player_id p \<noteq> u) (players m)\<rparr>) (w_store w1)\<rparr>)"

section \<open>Scenario\<close>

text \<open>Alice joins the classic lobby of theory \<open>Lifecycle\<close> on a fresh server at 1 s: she
  opens a new match and pays its entry fee.\<close>

definition demo_join :: world where
  "demo_join = serve demo_cfgs None (Join 1000 ''classic'' ''alice'' None) (start demo_ledger)"

definition demo_seat :: internal_match where
  "demo_seat = (fresh_match demo_cfg ''classic'' ''alice'' ''Player'' 1000)\<lparr>players :=
     map (\<lambda>p. p\<lparr>paidEntry := True\<rparr>) (players (fresh_match demo_cfg ''classic'' ''alice'' ''Player'' 1000))\<rparr>"

section \<open>Lemmas on the invariant\<close>

lemma engine_invD:
  "engine_inv cfgs w \<Longrightarrow> m \<in> set (listAll (w_store w)) \<Longrightarrow> match_ok cfgs (w_ledger w) m"
  "engine_inv cfgs w \<Longrightarrow> index_ok (w_store w)"
  "engine_inv cfgs w \<Longrightarrow> single_active (w_store w)"
  by (auto simp: engine_inv_def list_all_iff)

lemma single_activeD:
  "single_active st \<Longrightarrow> m1 \<in> set (listAll st) \<Longrightarrow> m2 \<in> set (listAll st) \<Longrightarrow>
   active_for u m1 \<Longrightarrow> active_for u m2 \<Longrightarrow> match_id m1 = match_id m2"
  unfolding single_active_def by blast

lemma match_ok_grows: "match_ok cfgs l m \<Longrightarrow> grows l l' \<Longrightarrow> match_ok cfgs l' m"
  by (auto simp: match_ok_def list_all_iff intro: has_key_grows)

text \<open>The invariant reads the store only through \<open>listAll\<close> and \<open>index_ok\<close>, and the
  ledger only through keys, which stay once written.\<close>

lemma engine_inv_cong:
  assumes "engine_inv cfgs w" "listAll (w_store w') = listAll (w_store w)" "index_ok (w_store w')"
    "grows (w_ledger w) (w_ledger w')"
  shows "engine_inv cfgs w'"
proof -
  have "single_active (w_store w')"
    using engine_invD(3) [OF assms(1)] unfolding single_active_def assms(2) .
  moreover have "list_all (match_ok cfgs (w_ledger w')) (listAll (w_store w'))"
    using engine_invD(1) [OF assms(1)] assms(2,4) by (auto simp: list_all_iff intro: match_ok_grows)
  ultimately show ?thesis using assms(3) by (simp add: engine_inv_def)
qed

lemma engine_inv_same_store:
  "engine_inv cfgs w \<Longrightarrow> w_store w' = w_store w \<Longrightarrow> grows (w_ledger w) (w_ledger w') \<Longrightarrow> engine_inv cfgs w'"
  using engine_inv_cong engine_invD(2) by metis

lemma engine_inv_clearWaiting:
  assumes inv: "engine_inv cfgs w"
  shows "engine_inv cfgs (w\<lparr>w_store := clearWaiting lt (w_store w)\<rparr>)"
  by (rule engine_inv_cong [OF inv]) (simp_all add: engine_invD(2) [OF inv])

lemma engine_inv_remove:
  assumes inv: "engine_inv cfgs w"
  shows "engine_inv cfgs (w\<lparr>w_store := repo_remove mid (w_store w)\<rparr>)"
proof -
  have ix: "index_ok (w_store w)" using engine_invD(2) [OF inv] .
  have sub: "set (listAll (repo_remove mid (w_store w))) \<subseteq> set (listAll (w_store w))"
    using listAll_remove [OF ix] by auto
  have "single_active (repo_remove mid (w_store w))"
    unfolding single_active_def using single_activeD [OF engine_invD(3) [OF inv]] sub by blast
  moreover have "list_all (match_ok cfgs (w_ledger w)) (listAll (repo_remove mid (w_store w)))"
    using engine_invD(1) [OF inv] sub by (auto simp: list_all_iff)
  ultimately show ?thesis using repo_remove_index_ok [OF ix] by (simp add: engine_inv_def)
qed

text \<open>Saving a match that satisfies the invariant and in which nobody is active who is
  active elsewhere keeps the invariant.\<close>

lemma engine_inv_save:
  assumes inv: "engine_inv cfgs w" and ok: "match_ok cfgs (w_ledger w) m'"
    and act: "\<And>v x. active_for v m' \<Longrightarrow> x \<in> set (listAll (w_store w)) \<Longrightarrow> active_for v x \<Longrightarrow>
                 match_id x = match_id m'"
  shows "engine_inv cfgs (w\<lparr>w_store := repo_save m' (w_store w)\<rparr>)"
proof -
  have ix: "index_ok (w_store w)" using inv by (simp add: engine_inv_def)
  have sa: "single_active (w_store w)" using inv by (simp add: engine_inv_def)
  show ?thesis
    unfolding engine_inv_def
  proof (intro conjI)
    show "index_ok (w_store (w\<lparr>w_store := repo_save m' (w_store w)\<rparr>))"
      using ix by (simp add: repo_save_index_ok)
    show "list_all (match_ok cfgs (w_ledger (w\<lparr>w_store := repo_save m' (w_store w)\<rparr>)))
            (listAll (w_store (w\<lparr>w_store := repo_save m' (w_store w)\<rparr>)))"
      unfolding list_all_iff
    proof
      fix x
      assume "x \<in> set (listAll (w_store (w\<lparr>w_store := repo_save m' (w_store w)\<rparr>)))"
      then have "x = m' \<or> x \<in> set (listAll (w_store w))" using ix by (auto simp: listAll_save)
      then show "match_ok cfgs (w_ledger (w\<lparr>w_store := repo_save m' (w_store w)\<rparr>)) x"
        using engine_invD(1) [OF inv] ok by auto
    qed
    show "single_active (w_store (w\<lparr>w_store := repo_save m' (w_store w)\<rparr>))"
      unfolding single_active_def
    proof (intro allI impI)
      fix v m1 m2
      assume m1: "m1 \<in> set (listAll (w_store (w\<lparr>w_store := repo_save m' (w_store w)\<rparr>)))"
        and m2: "m2 \<in> set (listAll (w_store (w\<lparr>w_store := repo_save m' (w_store w)\<rparr>)))"
        and a1: "active_for v m1" and a2: "active_for v m2"
      from m1 m2 ix have cs: "(m1 = m' \<or> m1 \<in> set (listAll (w_store w)) \<and> match_id m1 \<noteq> match_id m') \<and>
                          (m2 = m' \<or> m2 \<in> set (listAll (w_store w)) \<and> match_id m2 \<noteq> match_id m')"
        by (simp add: listAll_save)
      from cs consider (a) "m1 = m'" "m2 = m'"
        | (b) "m1 = m'" "m2 \<in> set (listAll (w_store w))"
        | (c) "m2 = m'" "m1 \<in> set (listAll (w_store w))"
        | (d) "m1 \<in> set (listAll (w_store w))" "m2 \<in> set (listAll (w_store w))"
        by blast
      then show "match_id m1 = match_id m2"
      proof cases
        case a
        then show ?thesis by simp
      next
        case b
        then have "active_for v m'" using a1 by simp
        from act [OF this b(2) a2] show ?thesis using b(1) by simp
      next
        case c
        then have "active_for v m'" using a2 by simp
        from act [OF this c(2) a1] show ?thesis using c(1) by simp
      next
        case d
        from single_activeD [OF sa d a1 a2] show ?thesis .
      qed
    qed
  qed
qed

lemma match_ok_kept:
  assumes ok: "match_ok cfgs l m" and kept: "list_all2 seat_kept (players m) ps'"
  shows "match_ok cfgs l (m\<lparr>players := ps'\<rparr>)"
proof -
  have ids: "map player_id ps' = map player_id (players m)" using seat_kept_ids [OF kept] .
  then have len: "length ps' = length (players m)" by (metis length_map)
  have cap: "case cfgs (lobbyType m) of None \<Rightarrow> False | Some c \<Rightarrow> length (players m) \<le> cfg_maxPlayers c"
    and st: "status m = Waiting" "endedAt m = None" and dis: "distinct (map player_id (players m))"
    using ok by (simp_all add: match_ok_def)
  have pay: "\<forall>p' \<in> set ps'. player_id p' \<noteq> [] \<and> paidEntry p' \<and> has_key (player_id p') ''entryFee'' (match_id m) l"
    using seat_kept_paid [OF kept] ok by (fastforce simp: match_ok_def list_all_iff seat_kept_def)
  show ?thesis
    unfolding match_ok_def using cap st dis pay ids len by (simp add: list_all_iff split: option.splits)
qed

lemma engine_inv_save_kept:
  assumes inv: "engine_inv cfgs w" and m: "m \<in> set (listAll (w_store w))"
    and kept: "list_all2 seat_kept (players m) ps'"
  shows "engine_inv cfgs (w\<lparr>w_store := repo_save (m\<lparr>players := ps'\<rparr>) (w_store w)\<rparr>)"
proof (rule engine_inv_save [OF inv])
  show "match_ok cfgs (w_ledger w) (m\<lparr>players := ps'\<rparr>)"
    using match_ok_kept [OF engine_invD(1) [OF inv m] kept] .
  fix v x
  assume "active_for v (m\<lparr>players := ps'\<rparr>)" "x \<in> set (listAll (w_store w))" "active_for v x"
  moreover have "list_all2 seat_kept (players m) (players (m\<lparr>players := ps'\<rparr>))" using kept by simp
  moreover have "status (m\<lparr>players := ps'\<rparr>) = status m" by simp
  ultimately have "active_for v m" using active_seat_kept by blast
  then have "match_id x = match_id m"
    using single_activeD [OF engine_invD(3) [OF inv] \<open>x \<in> set (listAll (w_store w))\<close> m] \<open>active_for v x\<close>
    by blast
  then show "match_id x = match_id (m\<lparr>players := ps'\<rparr>)" by simp
qed


lemma match_ok_filter:
  assumes ok: "match_ok cfgs l m"
  shows "match_ok cfgs l (m\<lparr>players := filter (\<lambda>p. player_id p \<noteq> u) (players m)\<rparr>)"
proof -
  obtain c where c: "cfgs (lobbyType m) = Some c" and cap: "length (players m) \<le> cfg_maxPlayers c"
    using ok by (auto simp: match_ok_def split: option.splits)
  have "length (filter (\<lambda>p. player_id p \<noteq> u) (players m)) \<le> cfg_maxPlayers c"
    using cap length_filter_le le_trans by blast
  moreover have "distinct (map player_id (filter (\<lambda>p. player_id p \<noteq> u) (players m)))"
    using ok by (simp add: match_ok_def distinct_map_filter)
  moreover have "list_all (\<lambda>p. player_id p \<noteq> [] \<and> paidEntry p \<and> has_key (player_id p) ''entryFee'' (match_id m) l)
                   (filter (\<lambda>p. player_id p \<noteq> u) (players m))"
    using ok by (simp add: match_ok_def list_all_iff)
  ultimately show ?thesis using ok c by (simp add: match_ok_def)
qed

text \<open>The per-match part of the invariant under the primitive changes of the store.\<close>

lemma store_invD:
  "store_inv cfgs w \<Longrightarrow> m \<in> set (listAll (w_store w)) \<Longrightarrow> match_ok cfgs (w_ledger w) m"
  "store_inv cfgs w \<Longrightarrow> index_ok (w_store w)"
  by (auto simp: store_inv_def list_all_iff)

lemma engine_inv_store: "engine_inv cfgs w \<longleftrightarrow> store_inv cfgs w \<and> single_active (w_store w)"
  by (auto simp: engine_inv_def store_inv_def)

lemma store_inv_save:
  assumes inv: "store_inv cfgs w" and ok: "match_ok cfgs (w_ledger w) m'"
  shows "store_inv cfgs (w\<lparr>w_store := repo_save m' (w_store w)\<rparr>)"
proof -
  have ix: "index_ok (w_store w)" using store_invD(2) [OF inv] .
  have "x \<in> set (listAll (repo_save m' (w_store w))) \<Longrightarrow> match_ok cfgs (w_ledger w) x" for x
    using listAll_save [OF ix] store_invD(1) [OF inv] ok by auto
  then show ?thesis using ix by (simp add: store_inv_def repo_save_index_ok list_all_iff)
qed

lemma store_inv_remove:
  assumes inv: "store_inv cfgs w"
  shows "store_inv cfgs (w\<lparr>w_store := repo_remove mid (w_store w)\<rparr>)"
proof -
  have ix: "index_ok (w_store w)" using store_invD(2) [OF inv] .
  have "x \<in> set (listAll (repo_remove mid (w_store w))) \<Longrightarrow> match_ok cfgs (w_ledger w) x" for x
    using listAll_remove [OF ix] store_invD(1) [OF inv] by auto
  then show ?thesis using repo_remove_index_ok [OF ix] by (simp add: store_inv_def list_all_iff)
qed

lemma store_inv_side:
  "store_inv cfgs w \<Longrightarrow> w_store w' = w_store w \<Longrightarrow> grows (w_ledger w) (w_ledger w') \<Longrightarrow> store_inv cfgs w'"
  by (auto simp: store_inv_def list_all_iff intro: match_ok_grows)

lemma repo_get_mem: "repo_get st mid = Some m \<Longrightarrow> m \<in> set (listAll st)"
  by (force simp: repo_get_def listAll_def dest: map_of_SomeD)

section \<open>The requests other than join change the world tamely\<close>

lemma tame_trans: "tame w1 w2 \<Longrightarrow> tame w w1 \<Longrightarrow> tame w w2"
  by (induction rule: tame.induct) (auto intro: tame.intros)

lemma tame_grows: "tame w w' \<Longrightarrow> grows (w_ledger w) (w_ledger w')"
  by (induction rule: tame.induct) (auto intro: grows_trans)

lemma tame_store_inv: "tame w w' \<Longrightarrow> store_inv cfgs w \<Longrightarrow> store_inv cfgs w'"
proof (induction rule: tame.induct)
  case (tame_side w w1 w2)
  then show ?case using store_inv_side by blast
next
  case (tame_clear w w1 lt)
  then show ?case by (simp add: store_inv_def)
next
  case (tame_remove w w1 mid)
  then show ?case using store_inv_remove by blast
next
  case (tame_kept w w1 m ps')
  then show ?case using store_inv_save match_ok_kept store_invD(1) by blast
next
  case (tame_drop w w1 m u)
  then show ?case using store_inv_save match_ok_filter store_invD(1) by blast
qed simp

lemma tame_engine_inv: "tame w w' \<Longrightarrow> engine_inv cfgs w \<Longrightarrow> engine_inv cfgs w'"
proof (induction rule: tame.induct)
  case (tame_side w w1 w2)
  then show ?case using engine_inv_same_store by blast
next
  case (tame_clear w w1 lt)
  then show ?case using engine_inv_clearWaiting by blast
next
  case (tame_remove w w1 mid)
  then show ?case using engine_inv_remove by blast
next
  case (tame_kept w w1 m ps')
  then show ?case using engine_inv_save_kept by blast
next
  case (tame_drop w w1 m u)
  then have inv: "engine_inv cfgs w1" by simp
  define m' where "m' = m\<lparr>players := filter (\<lambda>p. player_id p \<noteq> u) (players m)\<rparr>"
  have ok: "match_ok cfgs (w_ledger w1) m'"
    unfolding m'_def by (rule match_ok_filter [OF engine_invD(1) [OF inv tame_drop.hyps(2)]])
  have "engine_inv cfgs (w1\<lparr>w_store := repo_save m' (w_store w1)\<rparr>)"
  proof (rule engine_inv_save [OF inv ok])
    fix v x
    assume a: "active_for v m'" and x: "x \<in> set (listAll (w_store w1))" and ax: "active_for v x"
    have "active_for v m" using active_filter a unfolding m'_def by blast
    then have "match_id x = match_id m"
      using single_activeD [OF engine_invD(3) [OF inv] x tame_drop.hyps(2)] ax by blast
    then show "match_id x = match_id m'" by (simp add: m'_def)
  qed
  then show ?case by (simp add: m'_def)
qed simp

lemma validateWord_tame: "tame w (snd (validateWord file mid u word w))"
proof -
  have "w_store (snd (validateWord file mid u word w)) = w_store w \<and>
        w_ledger (snd (validateWord file mid u word w)) = w_ledger w"
    by (simp add: validateWord_def Let_def split: option.splits)
  then show ?thesis using tame_side [OF tame_refl] by simp
qed

lemma saveWords_tame: "tame w (snd (saveWords mid u ws w))"
proof (cases "u = [] \<or> repo_get (w_store w) mid = None")
  case True
  then show ?thesis by (auto simp: saveWords_def intro: tame_refl)
next
  case False
  then obtain m where m: "repo_get (w_store w) mid = Some m" and u: "u \<noteq> []" by auto
  show ?thesis
  proof (cases "find_player m u")
    case None
    then show ?thesis using m u by (simp add: saveWords_def tame_refl)
  next
    case (Some p)
    have kept: "list_all2 seat_kept (players m) (upd_first u (\<lambda>p. p\<lparr>words := map normalize ws\<rparr>) (players m))"
      by (rule upd_first_kept) simp
    have "snd (saveWords mid u ws w) =
            w\<lparr>w_store := repo_save (m\<lparr>players := upd_first u (\<lambda>p. p\<lparr>words := map normalize ws\<rparr>) (players m)\<rparr>) (w_store w)\<rparr>"
      using m u Some by (simp add: saveWords_def Let_def)
    then show ?thesis using tame_kept [OF tame_refl repo_get_mem [OF m] kept] by simp
  qed
qed

lemma leave_tame: "tame w (snd (leave u w))"
proof (cases "u = [] \<or> find (active_for u) (listByUser (w_store w) u) = None")
  case True
  then have "snd (leave u w) = w" by (auto simp: leave_def)
  then show ?thesis by (simp add: tame_refl)
next
  case False
  then obtain am where am: "find (active_for u) (listByUser (w_store w) u) = Some am" and u: "u \<noteq> []" by auto
  have mem: "am \<in> set (listAll (w_store w))"
    using find_Some_set [OF am] listByUser_sound by blast
  show ?thesis
  proof (cases "filter (\<lambda>p. player_id p \<noteq> u) (players am) = []")
    case True
    then have "snd (leave u w) = w\<lparr>w_store := clearWaiting (lobbyType am) (w_store w)\<rparr>"
      using am u by (simp add: leave_def)
    then show ?thesis using tame_clear [OF tame_refl] by simp
  next
    case False
    then have "snd (leave u w) = w\<lparr>w_store := repo_save (am\<lparr>players := filter (\<lambda>p. player_id p \<noteq> u) (players am)\<rparr>) (w_store w)\<rparr>"
      using am u by (simp add: leave_def)
    then show ?thesis using tame_drop [OF tame_refl mem] by simp
  qed
qed

text \<open>Writing back a match of the store: a completed match leaves the store, any other
  keeps its seats.\<close>

lemma persist_tame:
  assumes t: "tame w w1" and mem: "m \<in> set (listAll (w_store w1))"
    and m': "status m' = Completed \<or> (\<exists>ps'. m' = m\<lparr>players := ps'\<rparr> \<and> list_all2 seat_kept (players m) ps')"
  shows "tame w (w1\<lparr>w_store := persist m' (w_store w1)\<rparr>)"
proof (cases "status m' = Completed")
  case True
  then show ?thesis using tame_remove [OF t] by (simp add: persist_def)
next
  case False
  then obtain ps' where eq: "m' = m\<lparr>players := ps'\<rparr>" and kept: "list_all2 seat_kept (players m) ps'"
    using m' by blast
  then show ?thesis using False tame_kept [OF t mem kept] by (simp add: persist_def)
qed

lemma submit_tame: "tame w (snd (submit fc cfgs now mid u ws w))"
proof (cases "u = [] \<or> repo_get (w_store w) mid = None")
  case True
  then have "snd (submit fc cfgs now mid u ws w) = w" by (auto simp: submit_def)
  then show ?thesis by (simp add: tame_refl)
next
  case False
  then obtain m where u: "u \<noteq> []" and g: "repo_get (w_store w) mid = Some m" by auto
  show ?thesis
  proof (cases "find_player m u")
    case None
    then show ?thesis using u g by (simp add: submit_def tame_refl)
  next
    case (Some p)
    define w1 where "w1 = w\<lparr>w_dict := initDictionary fc (w_dict w)\<rparr>"
    have t1: "tame w w1" using tame_side [OF tame_refl] by (simp add: w1_def)
    have mem1: "m \<in> set (listAll (w_store w1))" using repo_get_mem [OF g] by (simp add: w1_def)
    define unique where "unique = accepted_words (initDictionary fc (w_dict w)) (match_board m) ws"
    define bonus where "bonus =
      time_bonus (cfg_or cfgs (lobbyType m) (\<lambda>c. or_default (cfg_timeBonusPerSecond c) 0) 0)
        (cfg_or cfgs (lobbyType m) cfg_timeBonusMaxPoints None) (player_deadline m p) now"
    define m1 where "m1 = m\<lparr>players := upd_first u (freeze unique (base_score unique) bonus now) (players m)\<rparr>"
    have kept: "list_all2 seat_kept (players m) (upd_first u (freeze unique (base_score unique) bonus now) (players m))"
      by (rule upd_first_kept) simp
    show ?thesis
    proof (cases "player_deadline m p < now")
      case True
      then have "snd (submit fc cfgs now mid u ws w) = w1" using u g Some by (simp add: submit_def Let_def w1_def)
      then show ?thesis using t1 by simp
    next
      case late: False
      show ?thesis
      proof (cases "all_submitted cfgs m1")
        case True
        obtain m2 w2 where s: "settle cfgs now m1 w1 = (m2, w2)" by (cases "settle cfgs now m1 w1")
        have eq: "snd (submit fc cfgs now mid u ws w) = w2\<lparr>w_store := persist m2 (w_store w2)\<rparr>"
          using u g Some late True s
          by (simp add: submit_def Let_def w1_def unique_def bonus_def m1_def)
        note sf = settle_facts [OF s]
        have t2: "tame w w2" using tame_side [OF t1] sf by simp
        have "m \<in> set (listAll (w_store w2))" using mem1 sf by simp
        from persist_tame [OF t2 this] show ?thesis using sf unfolding eq by simp
      next
        case False
        have eq: "snd (submit fc cfgs now mid u ws w) = w1\<lparr>w_store := persist m1 (w_store w1)\<rparr>"
          using u g Some late False
          by (simp add: submit_def Let_def w1_def unique_def bonus_def m1_def)
        from persist_tame [OF t1 mem1] show ?thesis using kept unfolding eq m1_def by blast
      qed
    qed
  qed
qed

text \<open>The tick: each step changes the world tamely, and the steps before a match of the
  snapshot leave that match's document in place.\<close>

lemma tick_match_tame:
  assumes mem: "m \<in> set (listAll (w_store w))"
  shows "tame w (tick_match fc cfgs now m w)"
proof (cases "status m = Completed")
  case True
  then show ?thesis by (simp add: tick_match_def tame_refl)
next
  case st: False
  obtain pr m1 w1 where p: "processMatchTimeout fc cfgs now m w = (pr, m1, w1)"
    by (cases "processMatchTimeout fc cfgs now m w")
  note f = processMatchTimeout_facts [OF p]
  have t1: "tame w w1" using tame_side [OF tame_refl] f by simp
  have mem1: "m \<in> set (listAll (w_store w1))" using mem f by simp
  define w2 where "w2 = (if pr then w1\<lparr>w_store := persist m1 (w_store w1)\<rparr> else w1)"
  have t2: "tame w w2"
    using persist_tame [OF t1 mem1 processMatchTimeout_cases [OF p]] t1 by (simp add: w2_def)
  have "tick_match fc cfgs now m w =
          (if \<not> (pr \<and> status m1 = Completed) \<and> autoCompleteAt m1 \<le> now \<and> status m1 \<noteq> Completed
           then w2\<lparr>w_store := repo_remove (match_id m1) (w_store w2)\<rparr> else w2)"
    using st p by (simp add: tick_match_def w2_def Let_def)
  then show ?thesis using t2 tame_remove [OF t2] by simp
qed

lemma fold_tick_tame:
  "distinct (map match_id ms) \<Longrightarrow> \<forall>m \<in> set ms. repo_get (w_store w) (match_id m) = Some m \<Longrightarrow>
   tame w (fold (tick_match fc cfgs now) ms w)"
proof (induction ms arbitrary: w)
  case Nil
  then show ?case by (simp add: tame_refl)
next
  case (Cons m ms)
  have g: "repo_get (w_store w) (match_id m) = Some m" using Cons.prems(2) by simp
  have t: "tame w (tick_match fc cfgs now m w)" using tick_match_tame [OF repo_get_mem [OF g]] .
  have "\<forall>y \<in> set ms. repo_get (w_store (tick_match fc cfgs now m w)) (match_id y) = Some y"
  proof
    fix y
    assume y: "y \<in> set ms"
    then have "match_id m \<noteq> match_id y" using Cons.prems(1) by (auto simp: image_iff)
    then show "repo_get (w_store (tick_match fc cfgs now m w)) (match_id y) = Some y"
      using tick_match_other Cons.prems(2) y by simp
  qed
  then show ?case using tame_trans [OF Cons.IH t] Cons.prems(1) by simp
qed

lemma tick_tame: "index_ok (w_store w) \<Longrightarrow> tame w (tick fc cfgs now w)"
  unfolding tick_def using fold_tick_tame listAll_distinct_ids listAll_repo_get by blast

lemma serve_tame: "\<not> is_join r \<Longrightarrow> index_ok (w_store w) \<Longrightarrow> tame w (serve cfgs fc r w)"
  by (cases r) (auto simp: is_join_def serve_def leave_tame saveWords_tame validateWord_tame
      submit_tame tick_tame intro: tame_side [OF tame_refl])

lemma validateWord_inv: "engine_inv cfgs w \<Longrightarrow> engine_inv cfgs (snd (validateWord file mid u word w))"
  by (rule tame_engine_inv [OF validateWord_tame])

lemma saveWords_inv: "engine_inv cfgs w \<Longrightarrow> engine_inv cfgs (snd (saveWords mid u ws w))"
  by (rule tame_engine_inv [OF saveWords_tame])

lemma leave_inv: "engine_inv cfgs w \<Longrightarrow> engine_inv cfgs (snd (leave u w))"
  by (rule tame_engine_inv [OF leave_tame])

lemma submit_inv: "engine_inv cfgs w \<Longrightarrow> engine_inv cfgs (snd (submit fc cfgs now mid u ws w))"
  by (rule tame_engine_inv [OF submit_tame])

lemma tick_inv: "engine_inv cfgs w \<Longrightarrow> engine_inv cfgs (tick fc cfgs now w)"
  using tame_engine_inv [OF tick_tame [OF engine_invD(2)]] by blast

section \<open>The handlers keep the invariant\<close>

text \<open>A user without an active match in the list of the user's matches is active in no
  stored match.\<close>

lemma no_active_elsewhere:
  assumes "index_ok st" "u \<noteq> []" "find (active_for u) (listByUser st u) = None" "x \<in> set (listAll st)"
  shows "\<not> active_for u x"
proof
  assume a: "active_for u x"
  then have "find_player x u \<noteq> None" by (auto simp: active_for_def split: option.splits)
  then have "x \<in> set (listByUser st u)" using listByUser_complete assms(1,4,2) by blast
  then show False using assms(3) a by (simp add: find_None_iff)
qed

lemma active_append_other:
  assumes "v \<noteq> u" "active_for v (m\<lparr>players := players m @ [new_player u n t d b]\<rparr>)"
  shows "active_for v m"
  using assms by (auto simp: active_for_def find_player_def find_append new_player_def split: option.splits)

lemma match_ok_join:
  assumes ok: "match_ok cfgs l m" and j: "joinable cfgs lt u m" and u: "u \<noteq> []" and g: "grows l l'"
    and key: "has_key u ''entryFee'' (match_id m) l'"
  shows "match_ok cfgs l' (m\<lparr>players := players m @ [new_player u n t d True]\<rparr>)"
proof -
  obtain c where c: "cfgs (lobbyType m) = Some c" and cap: "length (players m) \<le> cfg_maxPlayers c"
    using ok by (auto simp: match_ok_def split: option.splits)
  have lt: "lobbyType m = lt" and less: "length (players m) < cfg_or cfgs lt cfg_maxPlayers 7"
    and nf: "find_player m u = None" using j by (simp_all add: joinable_def)
  have "Suc (length (players m)) \<le> cfg_maxPlayers c" using less c lt by (simp add: cfg_or_def)
  moreover have "u \<notin> set (map player_id (players m))" using nf by (auto simp: find_player_def find_None_iff)
  moreover have "\<forall>p \<in> set (players m). player_id p \<noteq> [] \<and> paidEntry p \<and> has_key (player_id p) ''entryFee'' (match_id m) l'"
    using ok g by (auto simp: match_ok_def list_all_iff intro: has_key_grows)
  ultimately show ?thesis
    using ok c u key by (simp add: match_ok_def list_all_iff new_player_def)
qed

lemma match_ok_fresh:
  assumes "cfgs_ok cfgs" "cfgs lt = Some cfg" "u \<noteq> []"
    "has_key u ''entryFee'' (match_id (fresh_match cfg lt u n now)) l"
  shows "match_ok cfgs l ((fresh_match cfg lt u n now)\<lparr>players :=
           map (\<lambda>p. p\<lparr>paidEntry := True\<rparr>) (players (fresh_match cfg lt u n now))\<rparr>)"
  using assms by (simp add: match_ok_def fresh_match_def cfgs_ok_def new_player_def)

lemma active_fresh:
  "active_for v ((fresh_match cfg lt u n now)\<lparr>players :=
      map (\<lambda>p. p\<lparr>paidEntry := True\<rparr>) (players (fresh_match cfg lt u n now))\<rparr>) \<Longrightarrow> v = u"
  by (auto simp: active_for_def find_player_def fresh_match_def new_player_def split: if_splits)

lemma tryDebitUser_grows_eq: "tryDebitUser u a mid lt l = (r, l') \<Longrightarrow> grows l l'"
  using tryDebitUser_grows [of l u a mid lt] by simp

lemma join_inv:
  assumes inv: "engine_inv cfgs w" and cok: "cfgs_ok cfgs"
  shows "engine_inv cfgs (snd (join cfgs now lt u nameOpt w))"
proof (cases "lt = [] \<or> u = [] \<or> nameOpt = Some [] \<or> find (active_for u) (listByUser (w_store w) u) \<noteq> None")
  case True
  then have "snd (join cfgs now lt u nameOpt w) = w" by (auto simp: join_def Let_def split: option.splits)
  then show ?thesis using inv by simp
next
  case False
  then have pre: "lt \<noteq> []" "u \<noteq> []" "nameOpt \<noteq> Some []" and none: "find (active_for u) (listByUser (w_store w) u) = None"
    by auto
  have idle: "\<And>x. x \<in> set (listAll (w_store w)) \<Longrightarrow> \<not> active_for u x"
    using no_active_elsewhere [OF engine_invD(2) [OF inv] pre(2) none] .
  define pn where "pn = (case nameOpt of None \<Rightarrow> ''Player'' | Some n \<Rightarrow> n)"
  show ?thesis
  proof (cases "find (joinable cfgs lt u) (listAll (w_store w))")
    case (Some m)
    have mem: "m \<in> set (listAll (w_store w))" and j: "joinable cfgs lt u m" using find_Some_set [OF Some] by simp_all
    obtain ok l' where d: "tryDebitUser u (cfg_or cfgs lt cfg_entryFee 100) (Some (match_id m)) (Some lt) (w_ledger w) = (ok, l')"
      by (cases "tryDebitUser u (cfg_or cfgs lt cfg_entryFee 100) (Some (match_id m)) (Some lt) (w_ledger w)")
    have inv1: "engine_inv cfgs (w\<lparr>w_ledger := l'\<rparr>)"
      using engine_inv_same_store [OF inv] tryDebitUser_grows_eq [OF d] by simp
    show ?thesis
    proof (cases ok)
      case False
      then have "snd (join cfgs now lt u nameOpt w) = w\<lparr>w_ledger := l'\<rparr>"
        using pre none Some d by (simp add: join_def Let_def)
      then show ?thesis using inv1 by simp
    next
      case True
      define m' where "m' = m\<lparr>players := players m @ [new_player u pn now (now + cfg_or cfgs lt cfg_gameDuration 300 * 1000) True]\<rparr>"
      have eq: "snd (join cfgs now lt u nameOpt w) = (w\<lparr>w_ledger := l'\<rparr>)\<lparr>w_store := repo_save m' (w_store (w\<lparr>w_ledger := l'\<rparr>))\<rparr>"
        using pre none Some d True by (simp add: join_def Let_def m'_def pn_def)
      have key: "has_key u ''entryFee'' (match_id m) l'" using tryDebitUser_True_key d True by simp
      have ok': "match_ok cfgs l' m'"
        unfolding m'_def using match_ok_join [OF engine_invD(1) [OF inv mem] j pre(2) tryDebitUser_grows_eq [OF d] key] .
      have "engine_inv cfgs ((w\<lparr>w_ledger := l'\<rparr>)\<lparr>w_store := repo_save m' (w_store (w\<lparr>w_ledger := l'\<rparr>))\<rparr>)"
      proof (rule engine_inv_save [OF inv1])
        show "match_ok cfgs (w_ledger (w\<lparr>w_ledger := l'\<rparr>)) m'" using ok' by simp
        fix v x
        assume a: "active_for v m'" and x: "x \<in> set (listAll (w_store (w\<lparr>w_ledger := l'\<rparr>)))" and ax: "active_for v x"
        show "match_id x = match_id m'"
        proof (cases "v = u")
          case True
          then show ?thesis using idle x ax by simp
        next
          case False
          then have "active_for v m" using active_append_other a unfolding m'_def by blast
          then show ?thesis using single_activeD [OF engine_invD(3) [OF inv] _ mem] x ax by (simp add: m'_def)
        qed
      qed
      then show ?thesis unfolding eq .
    qed
  next
    case None
    show ?thesis
    proof (cases "cfgs lt")
      case None
      then have "snd (join cfgs now lt u nameOpt w) = w"
        using pre none \<open>find (joinable cfgs lt u) (listAll (w_store w)) = None\<close> by (simp add: join_def Let_def)
      then show ?thesis using inv by simp
    next
      case (Some cfg)
      define m where "m = fresh_match cfg lt u pn now"
      obtain paid l' where d: "tryDebitUser u (cfg_entryFee cfg) (Some (match_id m)) (Some lt) (w_ledger w) = (paid, l')"
        by (cases "tryDebitUser u (cfg_entryFee cfg) (Some (match_id m)) (Some lt) (w_ledger w)")
      have inv1: "engine_inv cfgs (w\<lparr>w_ledger := l'\<rparr>)"
        using engine_inv_same_store [OF inv] tryDebitUser_grows_eq [OF d] by simp
      show ?thesis
      proof (cases paid)
        case False
        then have "snd (join cfgs now lt u nameOpt w) = w\<lparr>w_ledger := l'\<rparr>"
          using pre none None Some d by (simp add: join_def Let_def m_def pn_def)
        then show ?thesis using inv1 by simp
      next
        case True
        define m' where "m' = m\<lparr>players := map (\<lambda>p. p\<lparr>paidEntry := True\<rparr>) (players m)\<rparr>"
        have eq: "snd (join cfgs now lt u nameOpt w) = (w\<lparr>w_ledger := l'\<rparr>)\<lparr>w_store := repo_save m' (w_store (w\<lparr>w_ledger := l'\<rparr>))\<rparr>"
          using pre none None Some d True by (simp add: join_def Let_def m'_def m_def pn_def)
        have key: "has_key u ''entryFee'' (match_id m) l'" using tryDebitUser_True_key d True by simp
        have ok': "match_ok cfgs l' m'"
          unfolding m'_def m_def using match_ok_fresh [OF cok Some pre(2)] key by (simp add: m_def)
        have "engine_inv cfgs ((w\<lparr>w_ledger := l'\<rparr>)\<lparr>w_store := repo_save m' (w_store (w\<lparr>w_ledger := l'\<rparr>))\<rparr>)"
        proof (rule engine_inv_save [OF inv1])
          show "match_ok cfgs (w_ledger (w\<lparr>w_ledger := l'\<rparr>)) m'" using ok' by simp
          fix v x
          assume a: "active_for v m'" and x: "x \<in> set (listAll (w_store (w\<lparr>w_ledger := l'\<rparr>)))" and ax: "active_for v x"
          have "v = u" using active_fresh a unfolding m'_def m_def by blast
          then show "match_id x = match_id m'" using idle x ax by simp
        qed
        then show ?thesis unfolding eq .
      qed
    qed
  qed
qed

section \<open>A successful join seats the user\<close>

lemma active_join_seat:
  assumes "find_player m u = None" "status m = Waiting"
  shows "active_for u (m\<lparr>players := players m @ [new_player u n t d b]\<rparr>)"
  using assms by (simp add: active_for_def find_player_def find_append new_player_def)

lemma join_Reply:
  assumes inv: "engine_inv cfgs w" and j: "join cfgs now lt u nameOpt w = (Reply v, w1)"
  shows "u \<noteq> [] \<and> (\<exists>am \<in> set (listAll (w_store w1)). active_for u am \<and> lobbyType am = lt)"
proof -
  have pre: "lt \<noteq> [] \<and> u \<noteq> [] \<and> nameOpt \<noteq> Some []" using j by (auto simp: join_def)
  have ix: "index_ok (w_store w)" using engine_invD(2) [OF inv] .
  define pn where "pn = (case nameOpt of None \<Rightarrow> ''Player'' | Some n \<Rightarrow> n)"
  show ?thesis
  proof (cases "find (active_for u) (listByUser (w_store w) u)")
    case (Some am)
    then have "am \<in> set (listAll (w_store w))" "active_for u am"
      using find_Some_set [OF Some] listByUser_sound by blast+
    moreover have "lobbyType am = lt \<and> w1 = w" using j pre Some by (auto simp: join_def split: if_splits)
    ultimately show ?thesis using pre by auto
  next
    case none: None
    show ?thesis
    proof (cases "find (joinable cfgs lt u) (listAll (w_store w))")
      case (Some m)
      have j': "joinable cfgs lt u m" using find_Some_set [OF Some] by simp
      obtain ok l' where d: "tryDebitUser u (cfg_or cfgs lt cfg_entryFee 100) (Some (match_id m)) (Some lt) (w_ledger w) = (ok, l')"
        by (cases "tryDebitUser u (cfg_or cfgs lt cfg_entryFee 100) (Some (match_id m)) (Some lt) (w_ledger w)")
      define m' where "m' = m\<lparr>players := players m @ [new_player u pn now (now + cfg_or cfgs lt cfg_gameDuration 300 * 1000) True]\<rparr>"
      have "join cfgs now lt u nameOpt w =
              (if ok then (Reply (toClientMatch m' u now), w\<lparr>w_store := repo_save m' (w_store w), w_ledger := l'\<rparr>)
               else (Failure 402 ''insufficient funds'', w\<lparr>w_ledger := l'\<rparr>))"
        using pre none Some d by (simp add: join_def Let_def m'_def pn_def)
      then have "ok \<and> w_store w1 = repo_save m' (w_store w)" using j by (auto split: if_splits)
      moreover have "active_for u m'" unfolding m'_def
        by (rule active_join_seat) (use j' in \<open>simp_all add: joinable_def\<close>)
      moreover have "lobbyType m' = lt" using j' by (simp add: m'_def joinable_def)
      ultimately show ?thesis using pre listAll_save [OF ix] by auto
    next
      case None
      then obtain cfg where c: "cfgs lt = Some cfg" using j pre none by (auto simp: join_def split: option.splits)
      define m where "m = fresh_match cfg lt u pn now"
      obtain paid l' where d: "tryDebitUser u (cfg_entryFee cfg) (Some (match_id m)) (Some lt) (w_ledger w) = (paid, l')"
        by (cases "tryDebitUser u (cfg_entryFee cfg) (Some (match_id m)) (Some lt) (w_ledger w)")
      define m' where "m' = m\<lparr>players := map (\<lambda>p. p\<lparr>paidEntry := True\<rparr>) (players m)\<rparr>"
      have "join cfgs now lt u nameOpt w =
              (if paid then (Reply (toClientMatch m' u now), w\<lparr>w_store := repo_save m' (w_store w), w_ledger := l'\<rparr>)
               else (Failure 402 ''insufficient funds'', w\<lparr>w_ledger := l'\<rparr>))"
        using pre none None c d by (simp add: join_def Let_def m'_def m_def pn_def)
      then have "paid \<and> w_store w1 = repo_save m' (w_store w)" using j by (auto split: if_splits)
      moreover have "active_for u m' \<and> lobbyType m' = lt"
        by (simp add: m'_def m_def fresh_match_def active_for_def find_player_def new_player_def)
      ultimately show ?thesis using pre listAll_save [OF ix] by auto
    qed
  qed
qed

lemma join_active_noop:
  assumes inv: "engine_inv cfgs w" and u: "u \<noteq> []"
    and am: "am \<in> set (listAll (w_store w))" "active_for u am"
  shows "snd (join cfgs now lt u nameOpt w) = w"
proof -
  have ix: "index_ok (w_store w)" using engine_invD(2) [OF inv] .
  have "find_player am u \<noteq> None" using am(2) by (auto simp: active_for_def split: option.splits)
  then have "am \<in> set (listByUser (w_store w) u)" using listByUser_complete [OF ix am(1)] u by blast
  then obtain am2 where "find (active_for u) (listByUser (w_store w) u) = Some am2"
    using am(2) by (cases "find (active_for u) (listByUser (w_store w) u)") (auto simp: find_None_iff)
  then show ?thesis by (auto simp: join_def Let_def)
qed

section \<open>Every request keeps the invariant\<close>

lemma start_inv: "engine_inv cfgs (start l)"
  by (simp add: engine_inv_def start_def index_ok_def listAll_def empty_store_def single_active_def)

lemma engine_inv_dict [simp]: "engine_inv cfgs (w\<lparr>w_dict := d\<rparr>) = engine_inv cfgs w"
  by (simp add: engine_inv_def)

lemma serve_inv: "cfgs_ok cfgs \<Longrightarrow> engine_inv cfgs w \<Longrightarrow> engine_inv cfgs (serve cfgs fc r w)"
  by (cases r) (simp_all add: serve_def join_inv leave_inv saveWords_inv validateWord_inv submit_inv tick_inv)

lemma reach_inv:
  assumes "cfgs_ok cfgs"
  shows "reach cfgs fc w \<Longrightarrow> engine_inv cfgs w"
  by (induction rule: reach.induct) (simp_all add: start_inv serve_inv assms)

lemma demo_join_store: "listAll (w_store demo_join) = [demo_seat]"
  by (simp add: demo_join_def serve_def join_def start_def demo_seat_def listByUser_def listAll_def
      map_filter_def cfg_or_def demo_cfgs_def demo_cfg_def empty_store_def repo_save_def ledger_eval_defs)

lemma demo_join_reach: "reach demo_cfgs None demo_join"
  unfolding demo_join_def by (rule reach_serve [OF reach_start])

lemma demo_cfgs_ok: "cfgs_ok demo_cfgs"
  by (simp add: cfgs_ok_def demo_cfgs_def demo_cfg_def)

section \<open>Properties\<close>

text \<open>When requests are served one after the other, no user is active (seated, not
  submitted, match not completed) in two different stored matches (specification, section
  8). The interleaved server of theory \<open>Concurrency\<close> does not keep this.\<close>

lemma reach_single_active:
  assumes "cfgs_ok cfgs" "reach cfgs fc w"
    "m1 \<in> set (listAll (w_store w))" "m2 \<in> set (listAll (w_store w))"
    "active_for u m1" "active_for u m2"
  shows "match_id m1 = match_id m2"
  using single_activeD [OF engine_invD(3) [OF reach_inv [OF assms(1,2)]] assms(3-6)] .

text \<open>C2: In every reachable world, every stored match is waiting, seats distinct
  users within its lobby's capacity, and every seated player paid the entry fee: the
  journal holds an \<open>entryFee\<close> row for that user and that match.\<close>

theorem reach_seated_paid:
  assumes "cfgs_ok cfgs" "reach cfgs fc w" "m \<in> set (listAll (w_store w))"
  shows "status m = Waiting \<and> distinct (map player_id (players m)) \<and>
         (\<exists>c. cfgs (lobbyType m) = Some c \<and> length (players m) \<le> cfg_maxPlayers c) \<and>
         (\<forall>p \<in> set (players m). paidEntry p \<and> has_key (player_id p) ''entryFee'' (match_id m) (w_ledger w))"
  using engine_invD(1) [OF reach_inv [OF assms(1,2)] assms(3)]
  by (auto simp: match_ok_def list_all_iff split: option.splits)

text \<open>C3: Once a join has seated a user, every further join by that user, for
  any lobby, at any time and under any name, changes nothing (no second debit, no second
  seat) until the user submits or leaves: a retried join never double-charges
  (specification, section 8).\<close>

theorem join_retry:
  assumes "engine_inv cfgs w" "cfgs_ok cfgs" "join cfgs now lt u nameOpt w = (Reply v, w1)"
  shows "snd (join cfgs now' lt' u nameOpt' w1) = w1"
proof -
  have inv1: "engine_inv cfgs w1" using join_inv [OF assms(1,2), of now lt u nameOpt] assms(3) by simp
  obtain am where "u \<noteq> []" "am \<in> set (listAll (w_store w1))" "active_for u am"
    using join_Reply [OF assms(1,3)] by blast
  then show ?thesis using join_active_noop [OF inv1] by blast
qed

section \<open>Witnesses\<close>

theorem reach_seated_paid_witness:
  "reach demo_cfgs None demo_join \<and> demo_seat \<in> set (listAll (w_store demo_join)) \<and>
   has_key ''alice'' ''entryFee'' (match_id demo_seat) (w_ledger demo_join)"
proof -
  have mem: "demo_seat \<in> set (listAll (w_store demo_join))" by (simp add: demo_join_store)
  have "players demo_seat = [(new_player ''alice'' ''Player'' 1000 121000 False)\<lparr>paidEntry := True\<rparr>]"
    by (simp add: demo_seat_def fresh_match_def demo_cfg_def)
  then show ?thesis using reach_seated_paid [OF demo_cfgs_ok demo_join_reach mem] demo_join_reach mem
    by (simp add: new_player_def)
qed

theorem join_retry_witness:
  "engine_inv demo_cfgs (start demo_ledger) \<and> cfgs_ok demo_cfgs \<and>
   fst (join demo_cfgs 1000 ''classic'' ''alice'' None (start demo_ledger)) = Reply (toClientMatch demo_seat ''alice'' 1000) \<and>
   snd (join demo_cfgs 5000 ''classic'' ''alice'' None demo_join) = demo_join"
proof -
  have s: "join demo_cfgs 1000 ''classic'' ''alice'' None (start demo_ledger) =
           (Reply (toClientMatch demo_seat ''alice'' 1000), demo_join)"
    by (simp add: demo_join_def serve_def join_def start_def demo_seat_def listByUser_def listAll_def
        map_filter_def cfg_or_def demo_cfgs_def demo_cfg_def empty_store_def ledger_eval_defs)
  show ?thesis using join_retry [OF start_inv demo_cfgs_ok s] start_inv demo_cfgs_ok s by simp
qed

end
