(* ===== verification/Users.thy ===== *)
theory Users
  imports Ledger Dictionary
begin

text \<open>
  User accounts: \<open>getOrCreateUserByAuthUid\<close>, \<open>getUserById\<close> and \<open>getUserBalance\<close> of
  src/backend/src/services/database.ts and the handlers of src/backend/src/modules/users.ts
  that provision or change a user (\<open>GET /users/me\<close>, which creates the caller's account
  on first use, and \<open>POST /users/username\<close>). The user table is an association list from
  user ids to the two unique columns the code looks users up by (\<open>authUid\<close> and
  \<open>username\<close>: \<open>prisma.user.findUnique\<close> only accepts unique columns), beside the
  ledger of theory \<open>Ledger\<close>, which holds the balances. The id Prisma generates for a new
  row is a parameter \<open>fresh\<close>. The caller is identified as in Firebase mode, by the
  token's uid; the dev-mode lookup by a client-supplied id is \<open>getUserById\<close>.
\<close>

section \<open>State\<close>

record user_row =
  usr_authUid :: "string option"
  usr_username :: "string option"

record user_db =
  ud_rows :: "(user_id \<times> user_row) list"
  ud_ledger :: ledger

text \<open>What a handler answers: a value, or an error status with its message.\<close>

datatype 'a outcome = Done 'a | Refused nat string

section \<open>Prisma operations on the user table\<close>

text \<open>\<open>prisma.user.findUnique({ where: { authUid } })\<close> and \<open>{ where: { username } }\<close>.\<close>

definition find_by_authUid :: "string \<Rightarrow> user_db \<Rightarrow> user_id option" where
  "find_by_authUid a db = map_option fst (find (\<lambda>(i, r). usr_authUid r = Some a) (ud_rows db))"

definition find_by_username :: "string \<Rightarrow> user_db \<Rightarrow> user_id option" where
  "find_by_username n db = map_option fst (find (\<lambda>(i, r). usr_username r = Some n) (ud_rows db))"

definition has_id :: "user_id \<Rightarrow> user_db \<Rightarrow> bool" where
  "has_id u db \<longleftrightarrow> list_ex (\<lambda>(i, r). i = u) (ud_rows db)"

text \<open>\<open>prisma.user.create\<close>: the id and both unique columns must be new (P2002
  otherwise); the account's balances start as given.\<close>

definition user_create :: "user_id \<Rightarrow> user_row \<Rightarrow> int \<Rightarrow> int \<Rightarrow> user_db \<Rightarrow> db_error + user_db" where
  "user_create u row gems bonus db =
     (if has_id u db \<or> (case usr_authUid row of Some a \<Rightarrow> find_by_authUid a db \<noteq> None | None \<Rightarrow> False)
         \<or> (case usr_username row of Some n \<Rightarrow> find_by_username n db \<noteq> None | None \<Rightarrow> False)
      then Inl UniqueViolation
      else Inr \<lparr>ud_rows = ud_rows db @ [(u, row)],
                ud_ledger = (ud_ledger db)\<lparr>accounts := (accounts (ud_ledger db))(u \<mapsto> \<lparr>gemBalance = gems, bonusGems = bonus\<rparr>)\<rparr>\<rparr>)"

text \<open>\<open>prisma.user.update({ where: { id }, data: { username } })\<close>: P2025 when the row is
  missing, P2002 when another row has the name.\<close>

definition user_set_username :: "user_id \<Rightarrow> string \<Rightarrow> user_db \<Rightarrow> db_error + user_db" where
  "user_set_username u n db =
     (if \<not> has_id u db then Inl RecordNotFound
      else if (case find_by_username n db of Some j \<Rightarrow> j \<noteq> u | None \<Rightarrow> False) then Inl UniqueViolation
      else Inr (db\<lparr>ud_rows := map (\<lambda>(i, r). (i, if i = u then r\<lparr>usr_username := Some n\<rparr> else r)) (ud_rows db)\<rparr>))"

section \<open>\<open>database.ts\<close>\<close>

text \<open>\<open>getOrCreateUserByAuthUid\<close>, lines 11-32: new users start with 100 gems and no
  bonus gems.\<close>

definition getOrCreateUserByAuthUid :: "string \<Rightarrow> user_id \<Rightarrow> user_db \<Rightarrow> (db_error + user_id) \<times> user_db" where
  "getOrCreateUserByAuthUid authUid fresh db =
     (case find_by_authUid authUid db of
        Some u \<Rightarrow> (Inr u, db)
      | None \<Rightarrow>
          (case user_create fresh \<lparr>usr_authUid = Some authUid, usr_username = None\<rparr> 100 0 db of
             Inl e \<Rightarrow> (Inl e, db)
           | Inr db' \<Rightarrow> (Inr fresh, db')))"

text \<open>\<open>getUserById\<close>, lines 40-49 (a missing user throws), and \<open>getUserBalance\<close>,
  lines 98-105.\<close>

definition getUserById :: "user_id \<Rightarrow> user_db \<Rightarrow> user_row option" where
  "getUserById u db = map_of (ud_rows db) u"

definition getUserBalance :: "user_id \<Rightarrow> user_db \<Rightarrow> (int \<times> int) option" where
  "getUserBalance u db =
     (case getUserById u db of
        None \<Rightarrow> None
      | Some _ \<Rightarrow> map_option (\<lambda>a. (gemBalance a, bonusGems a)) (accounts (ud_ledger db) u))"

section \<open>\<open>users.ts\<close>\<close>

text \<open>\<open>GET /users/me\<close>, lines 43-65: the caller's id, username and whether a username
  is still needed; the first call creates the account.\<close>

definition me :: "string \<Rightarrow> user_id \<Rightarrow> user_db \<Rightarrow> (user_id \<times> string option \<times> bool) outcome \<times> user_db" where
  "me authUid fresh db =
     (case getOrCreateUserByAuthUid authUid fresh db of
        (Inl _, db1) \<Rightarrow> (Refused 500 ''Failed to get user data'', db1)
      | (Inr u, db1) \<Rightarrow>
          (case getUserById u db1 of
             None \<Rightarrow> (Refused 500 ''Failed to get user data'', db1)
           | Some r \<Rightarrow>
               (Done (u, usr_username r,
                      (case usr_username r of None \<Rightarrow> True | Some n \<Rightarrow> trim n = [])), db1)))"

text \<open>\<open>POST /users/username\<close>, lines 66-106: the name has 1 to 20 characters; a name
  held by another user is refused with 409. \<open>rename_user\<close> is the part after the caller is
  known (lines 82-97), shared by both authentication modes.\<close>

definition rename_user :: "user_id \<Rightarrow> string \<Rightarrow> user_db \<Rightarrow> string outcome \<times> user_db" where
  "rename_user u n db =
     (case find_by_username n db of
        Some j \<Rightarrow> if j \<noteq> u then (Refused 409 ''Username already taken'', db)
                  else (case user_set_username u n db of
                          Inl _ \<Rightarrow> (Refused 500 ''Failed to set username'', db)
                        | Inr db2 \<Rightarrow> (Done n, db2))
      | None \<Rightarrow> (case user_set_username u n db of
                   Inl _ \<Rightarrow> (Refused 500 ''Failed to set username'', db)
                 | Inr db2 \<Rightarrow> (Done n, db2)))"

definition setUsername :: "string \<Rightarrow> user_id \<Rightarrow> string \<Rightarrow> user_db \<Rightarrow> string outcome \<times> user_db" where
  "setUsername authUid fresh n db =
     (if n = [] \<or> 20 < length n then (Refused 400 ''Invalid username'', db)
      else
        (case getOrCreateUserByAuthUid authUid fresh db of
           (Inl _, db1) \<Rightarrow> (Refused 500 ''Failed to set username'', db1)
         | (Inr u, db1) \<Rightarrow> rename_user u n db1))"

section \<open>Invariant\<close>

text \<open>Ids are distinct, no two rows share an \<open>authUid\<close> or a \<open>username\<close>, and every user
  has an account in the ledger.\<close>

definition users_ok :: "user_db \<Rightarrow> bool" where
  "users_ok db \<longleftrightarrow>
     distinct (map fst (ud_rows db)) \<and>
     (\<forall>i r j s a. (i, r) \<in> set (ud_rows db) \<longrightarrow> (j, s) \<in> set (ud_rows db) \<longrightarrow>
        usr_authUid r = Some a \<longrightarrow> usr_authUid s = Some a \<longrightarrow> i = j) \<and>
     (\<forall>i r j s n. (i, r) \<in> set (ud_rows db) \<longrightarrow> (j, s) \<in> set (ud_rows db) \<longrightarrow>
        usr_username r = Some n \<longrightarrow> usr_username s = Some n \<longrightarrow> i = j) \<and>
     (\<forall>i r. (i, r) \<in> set (ud_rows db) \<longrightarrow> accounts (ud_ledger db) i \<noteq> None)"

text \<open>The accounts of theory \<open>Ledger\<close> as users: Alice, named \<open>alice\<close>, and Bob,
  who has no name yet.\<close>

definition demo_users :: user_db where
  "demo_users =
     \<lparr>ud_rows = [(''alice'', \<lparr>usr_authUid = Some ''uid-a'', usr_username = Some ''alice''\<rparr>),
                (''bob'', \<lparr>usr_authUid = Some ''uid-b'', usr_username = None\<rparr>)],
      ud_ledger = demo_ledger\<rparr>"

section \<open>Lemmas\<close>

lemma has_id_iff: "has_id u db \<longleftrightarrow> u \<in> fst ` set (ud_rows db)"
  by (force simp: has_id_def list_ex_iff)

lemma find_by_authUid_None:
  "find_by_authUid a db = None \<longleftrightarrow> (\<forall>i r. (i, r) \<in> set (ud_rows db) \<longrightarrow> usr_authUid r \<noteq> Some a)"
  by (auto simp: find_by_authUid_def find_None_iff)

lemma find_by_username_None:
  "find_by_username n db = None \<longleftrightarrow> (\<forall>i r. (i, r) \<in> set (ud_rows db) \<longrightarrow> usr_username r \<noteq> Some n)"
  by (auto simp: find_by_username_def find_None_iff)

lemma find_by_authUid_Some:
  "find_by_authUid a db = Some u \<Longrightarrow> \<exists>r. (u, r) \<in> set (ud_rows db) \<and> usr_authUid r = Some a"
  by (auto simp: find_by_authUid_def dest!: find_Some_set)

lemma find_by_username_Some:
  "find_by_username n db = Some u \<Longrightarrow> \<exists>r. (u, r) \<in> set (ud_rows db) \<and> usr_username r = Some n"
  by (auto simp: find_by_username_def dest!: find_Some_set)

lemma users_okD:
  assumes "users_ok db" "(i, r) \<in> set (ud_rows db)" "(j, s) \<in> set (ud_rows db)"
  shows "usr_authUid r = Some a \<Longrightarrow> usr_authUid s = Some a \<Longrightarrow> i = j"
    and "usr_username r = Some n \<Longrightarrow> usr_username s = Some n \<Longrightarrow> i = j"
    and "accounts (ud_ledger db) i \<noteq> None"
  using assms unfolding users_ok_def by blast+

lemma users_ok_distinct: "users_ok db \<Longrightarrow> distinct (map fst (ud_rows db))"
  by (simp add: users_ok_def)

text \<open>A successful create appends a row whose id and unique columns were free.\<close>

lemma user_create_Inr:
  assumes "user_create u row g b db = Inr db'"
  shows "ud_rows db' = ud_rows db @ [(u, row)] \<and>
         accounts (ud_ledger db') = (accounts (ud_ledger db))(u \<mapsto> \<lparr>gemBalance = g, bonusGems = b\<rparr>) \<and>
         txns (ud_ledger db') = txns (ud_ledger db) \<and>
         u \<notin> fst ` set (ud_rows db) \<and>
         (\<forall>i r a. (i, r) \<in> set (ud_rows db) \<longrightarrow> usr_authUid row = Some a \<longrightarrow> usr_authUid r \<noteq> Some a) \<and>
         (\<forall>i r n. (i, r) \<in> set (ud_rows db) \<longrightarrow> usr_username row = Some n \<longrightarrow> usr_username r \<noteq> Some n)"
  using assms
  by (auto simp: user_create_def has_id_iff find_by_authUid_None find_by_username_None
      split: if_splits option.splits)

lemma user_create_ok:
  assumes ok: "users_ok db" and c: "user_create u row g b db = Inr db'"
  shows "users_ok db'"
proof -
  note f = user_create_Inr [OF c]
  have mem: "\<And>i r. (i, r) \<in> set (ud_rows db') \<longleftrightarrow> (i, r) = (u, row) \<or> (i, r) \<in> set (ud_rows db)"
    using f by auto
  have "distinct (map fst (ud_rows db'))" using f users_ok_distinct [OF ok] by auto
  moreover have "\<forall>i r j s a. (i, r) \<in> set (ud_rows db') \<longrightarrow> (j, s) \<in> set (ud_rows db') \<longrightarrow>
        usr_authUid r = Some a \<longrightarrow> usr_authUid s = Some a \<longrightarrow> i = j"
    unfolding mem using f users_okD(1) [OF ok] by blast
  moreover have "\<forall>i r j s n. (i, r) \<in> set (ud_rows db') \<longrightarrow> (j, s) \<in> set (ud_rows db') \<longrightarrow>
        usr_username r = Some n \<longrightarrow> usr_username s = Some n \<longrightarrow> i = j"
    unfolding mem using f users_okD(2) [OF ok] by blast
  moreover have "\<forall>i r. (i, r) \<in> set (ud_rows db') \<longrightarrow> accounts (ud_ledger db') i \<noteq> None"
    unfolding mem using f users_okD(3) [OF ok] by auto
  ultimately show ?thesis by (simp add: users_ok_def)
qed

lemma user_set_username_Inr:
  assumes ok: "users_ok db" and c: "user_set_username u n db = Inr db'"
  shows "ud_rows db' = map (\<lambda>(i, r). (i, if i = u then r\<lparr>usr_username := Some n\<rparr> else r)) (ud_rows db) \<and>
         ud_ledger db' = ud_ledger db \<and>
         (\<forall>j s. (j, s) \<in> set (ud_rows db) \<longrightarrow> usr_username s = Some n \<longrightarrow> j = u)"
proof -
  have none_or: "find_by_username n db = None \<or> find_by_username n db = Some u"
    using c by (auto simp: user_set_username_def split: if_splits option.splits)
  have "\<forall>j s. (j, s) \<in> set (ud_rows db) \<longrightarrow> usr_username s = Some n \<longrightarrow> j = u"
  proof (intro allI impI)
    fix j s
    assume js: "(j, s) \<in> set (ud_rows db)" and sn: "usr_username s = Some n"
    from none_or show "j = u"
    proof
      assume "find_by_username n db = None"
      then show ?thesis using js sn by (simp add: find_by_username_None)
    next
      assume "find_by_username n db = Some u"
      then obtain r where ur: "(u, r) \<in> set (ud_rows db)" "usr_username r = Some n"
        using find_by_username_Some by blast
      show ?thesis using users_okD(2) [OF ok js ur(1) sn ur(2)] .
    qed
  qed
  then show ?thesis using c by (auto simp: user_set_username_def split: if_splits)
qed

lemma map_fst_rename:
  "map fst (map (\<lambda>(i, r). (i, if i = u then f r else r)) xs) = map fst xs"
  by (induction xs) auto

lemma mem_rename:
  "(i, r') \<in> set (map (\<lambda>(i, r). (i, if i = u then f r else r)) xs) \<longleftrightarrow>
   (\<exists>r. (i, r) \<in> set xs \<and> r' = (if i = u then f r else r))"
  by force

lemma user_set_username_ok:
  assumes ok: "users_ok db" and c: "user_set_username u n db = Inr db'"
  shows "users_ok db'"
proof -
  note f = user_set_username_Inr [OF ok c]
  let ?f = "\<lambda>r. r\<lparr>usr_username := Some n\<rparr>"
  have mem: "\<And>i r'. (i, r') \<in> set (ud_rows db') \<longleftrightarrow> (\<exists>r. (i, r) \<in> set (ud_rows db) \<and> r' = (if i = u then ?f r else r))"
    unfolding f [THEN conjunct1] by (rule mem_rename)
  have "distinct (map fst (ud_rows db'))"
    unfolding f [THEN conjunct1] map_fst_rename using users_ok_distinct [OF ok] .
  moreover have "\<forall>i r j s a. (i, r) \<in> set (ud_rows db') \<longrightarrow> (j, s) \<in> set (ud_rows db') \<longrightarrow>
        usr_authUid r = Some a \<longrightarrow> usr_authUid s = Some a \<longrightarrow> i = j"
  proof (intro allI impI)
    fix i r j s a
    assume "(i, r) \<in> set (ud_rows db')" "(j, s) \<in> set (ud_rows db')" "usr_authUid r = Some a" "usr_authUid s = Some a"
    then obtain r0 s0 where "(i, r0) \<in> set (ud_rows db)" "(j, s0) \<in> set (ud_rows db)"
      "usr_authUid r0 = Some a" "usr_authUid s0 = Some a"
      unfolding mem by (auto split: if_splits)
    then show "i = j" using users_okD(1) [OF ok] by blast
  qed
  moreover have "\<forall>i r j s m. (i, r) \<in> set (ud_rows db') \<longrightarrow> (j, s) \<in> set (ud_rows db') \<longrightarrow>
        usr_username r = Some m \<longrightarrow> usr_username s = Some m \<longrightarrow> i = j"
  proof (intro allI impI)
    fix i r j s m
    assume ir: "(i, r) \<in> set (ud_rows db')" and js: "(j, s) \<in> set (ud_rows db')"
      and rm: "usr_username r = Some m" and sm: "usr_username s = Some m"
    obtain r0 where r0: "(i, r0) \<in> set (ud_rows db)" "r = (if i = u then ?f r0 else r0)" using ir mem by blast
    obtain s0 where s0: "(j, s0) \<in> set (ud_rows db)" "s = (if j = u then ?f s0 else s0)" using js mem by blast
    show "i = j"
    proof (cases "m = n")
      case True
      then have "i = u" "j = u" using f r0 s0 rm sm by (auto split: if_splits)
      then show ?thesis by simp
    next
      case False
      then have "i \<noteq> u" "j \<noteq> u" using r0 s0 rm sm by (auto split: if_splits)
      then show ?thesis using users_okD(2) [OF ok r0(1) s0(1)] r0(2) s0(2) rm sm by simp
    qed
  qed
  moreover have "\<forall>i r. (i, r) \<in> set (ud_rows db') \<longrightarrow> accounts (ud_ledger db') i \<noteq> None"
    using f users_okD(3) [OF ok] mem by fastforce
  ultimately show ?thesis by (simp add: users_ok_def)
qed

lemma getOrCreate_ok:
  "users_ok db \<Longrightarrow> users_ok (snd (getOrCreateUserByAuthUid a fresh db))"
  by (auto simp: getOrCreateUserByAuthUid_def intro: user_create_ok split: option.splits sum.splits)

lemma find_by_username_unique:
  assumes "users_ok db" "(j, r) \<in> set (ud_rows db)" "usr_username r = Some n"
  shows "find_by_username n db = Some j"
proof (cases "find_by_username n db")
  case None
  then show ?thesis using assms(2,3) by (simp add: find_by_username_None)
next
  case (Some k)
  then obtain s where "(k, s) \<in> set (ud_rows db)" "usr_username s = Some n" using find_by_username_Some by blast
  then show ?thesis using users_okD(2) [OF assms(1,2)] assms(3) Some by simp
qed

section \<open>Properties\<close>

text \<open>Provisioning a user (\<open>getOrCreateUserByAuthUid\<close>, \<open>GET /users/me\<close>)
  and setting a username keep user ids, authentication uids and usernames unique, and
  give every user an account.\<close>

lemma users_ops_ok:
  assumes "users_ok db"
  shows "users_ok (snd (getOrCreateUserByAuthUid a fresh db)) \<and> users_ok (snd (me a fresh db)) \<and>
         users_ok (snd (setUsername a fresh n db))"
proof -
  have g: "users_ok (snd (getOrCreateUserByAuthUid a fresh db))" using getOrCreate_ok [OF assms] .
  obtain r db1 where p: "getOrCreateUserByAuthUid a fresh db = (r, db1)"
    by (cases "getOrCreateUserByAuthUid a fresh db")
  have ok1: "users_ok db1" using g p by simp
  have "users_ok (snd (me a fresh db))"
    using ok1 p by (auto simp: me_def split: sum.splits option.splits)
  moreover have "users_ok (snd (setUsername a fresh n db))"
    using ok1 p assms user_set_username_ok [OF ok1]
    by (auto simp: setUsername_def rename_user_def split: sum.splits option.splits if_splits)
  ultimately show ?thesis using g by simp
qed

text \<open>C34: The first request of a new authentication uid creates its user
  with 100 gems and no bonus gems, writing no journal row, and every later lookup of that
  uid returns the same user and changes nothing.\<close>

theorem getOrCreate_provisions:
  assumes "find_by_authUid a db = None" "fresh \<notin> fst ` set (ud_rows db)"
  shows "\<exists>db'. getOrCreateUserByAuthUid a fresh db = (Inr fresh, db') \<and>
           getUserBalance fresh db' = Some (100, 0) \<and> txns (ud_ledger db') = txns (ud_ledger db) \<and>
           getOrCreateUserByAuthUid a fresh' db' = (Inr fresh, db')"
proof -
  let ?row = "\<lparr>usr_authUid = Some a, usr_username = None\<rparr>"
  let ?db' = "\<lparr>ud_rows = ud_rows db @ [(fresh, ?row)],
               ud_ledger = (ud_ledger db)\<lparr>accounts := (accounts (ud_ledger db))(fresh \<mapsto> \<lparr>gemBalance = 100, bonusGems = 0\<rparr>)\<rparr>\<rparr>"
  have c: "user_create fresh ?row 100 0 db = Inr ?db'"
    using assms by (simp add: user_create_def has_id_iff)
  have "find (\<lambda>(i, r). usr_authUid r = Some a) (ud_rows db) = None"
    using assms(1) by (simp add: find_by_authUid_def)
  then have "find_by_authUid a ?db' = Some fresh" by (simp add: find_by_authUid_def find_append)
  moreover have "getOrCreateUserByAuthUid a fresh db = (Inr fresh, ?db')"
    using assms(1) c by (simp add: getOrCreateUserByAuthUid_def)
  moreover have "getUserBalance fresh ?db' = Some (100, 0)"
  proof -
    have "map_of (ud_rows db) fresh = None" using assms(2) by (simp add: map_of_eq_None_iff)
    then show ?thesis by (simp add: getUserBalance_def getUserById_def map_add_def)
  qed
  ultimately show ?thesis by (simp add: getOrCreateUserByAuthUid_def)
qed

text \<open>C33: Setting a username another user holds is refused with 409 and
  changes nothing.\<close>

theorem setUsername_taken:
  assumes "users_ok db" "find_by_authUid a db = Some u" "(j, r) \<in> set (ud_rows db)"
    "usr_username r = Some n" "j \<noteq> u" "n \<noteq> []" "length n \<le> 20"
  shows "setUsername a fresh n db = (Refused 409 ''Username already taken'', db)"
  using assms find_by_username_unique [OF assms(1,3,4)]
  by (simp add: setUsername_def rename_user_def getOrCreateUserByAuthUid_def)

section \<open>Witnesses\<close>

lemma demo_users_ok: "users_ok demo_users"
  by (auto simp: users_ok_def demo_users_def demo_ledger_def)

theorem getOrCreate_provisions_witness:
  "find_by_authUid ''uid-c'' demo_users = None \<and> ''carol'' \<notin> fst ` set (ud_rows demo_users) \<and>
   fst (getOrCreateUserByAuthUid ''uid-c'' ''carol'' demo_users) = Inr ''carol''"
proof -
  have h: "find_by_authUid ''uid-c'' demo_users = None" "''carol'' \<notin> fst ` set (ud_rows demo_users)"
    by (simp_all add: find_by_authUid_def demo_users_def)
  show ?thesis using getOrCreate_provisions [OF h, where fresh' = "''carol''"] h by auto
qed

theorem setUsername_taken_witness:
  "find_by_authUid ''uid-b'' demo_users = Some ''bob'' \<and>
   setUsername ''uid-b'' ''x'' ''alice'' demo_users = (Refused 409 ''Username already taken'', demo_users)"
proof -
  have f: "find_by_authUid ''uid-b'' demo_users = Some ''bob''" by (simp add: find_by_authUid_def demo_users_def)
  have m: "(''alice'', \<lparr>usr_authUid = Some ''uid-a'', usr_username = Some ''alice''\<rparr>) \<in> set (ud_rows demo_users)"
    by (simp add: demo_users_def)
  show ?thesis using setUsername_taken [OF demo_users_ok f m] f by simp
qed

end
