(* ===== verification/Auth.thy ===== *)
theory Auth
  imports Users Lobbies
begin

text \<open>
  Authentication and the resolution of the caller: \<open>getAuthMode\<close> and \<open>isDevAuth\<close> of
  src/backend/src/config/auth.ts, \<open>initFirebase\<close> and \<open>verifyIdToken\<close> of
  config/firebase.ts, the middleware \<open>authFirebase\<close> of middlewares/authFirebase.ts,
  \<open>getRequestingUser\<close> (the same function appears in modules/users.ts, wallet.ts and
  matches.ts) and the dev-mode \<open>POST /users/login-or-register\<close> of modules/users.ts.

  The environment variables are a record of optional strings. The Firebase Admin SDK is
  outside the program: whether the app was initialised is the flag \<open>fb_app\<close>, and the
  SDK's own token check is a parameter \<open>check\<close> from a token to the uid it carries
  (\<open>None\<close> for a token it rejects or a check that throws). The request body and query
  fields are parsed JSON values of theory \<open>Lobbies\<close>, \<open>None\<close> when absent.
\<close>

section \<open>\<open>config/auth.ts\<close>\<close>

datatype auth_mode = DevAuth | FirebaseAuth

record env =
  env_AUTH_MODE :: "string option"
  env_NODE_ENV :: "string option"
  env_FIREBASE_PROJECT_ID :: "string option"
  env_FIREBASE_CLIENT_EMAIL :: "string option"
  env_FIREBASE_PRIVATE_KEY :: "string option"

text \<open>\<open>String.prototype.toLowerCase\<close> on the ASCII letters; other characters are kept.\<close>

definition to_lower_char :: "char \<Rightarrow> char" where
  "to_lower_char ch =
     (let n = (of_char ch :: nat) in if 65 \<le> n \<and> n \<le> 90 then char_of (n + 32) else ch)"

definition toLowerCase :: "string \<Rightarrow> string" where
  "toLowerCase s = map to_lower_char s"

text \<open>\<open>getAuthMode\<close>, lines 3-12: an explicit \<open>AUTH_MODE\<close> wins, then \<open>NODE_ENV\<close>
  \<open>production\<close> means Firebase, and anything else means dev.\<close>

definition getAuthMode :: "env \<Rightarrow> auth_mode" where
  "getAuthMode e =
     (let explicit = toLowerCase (or_default (env_AUTH_MODE e) [])
      in if explicit = ''dev'' then DevAuth
         else if explicit = ''firebase'' then FirebaseAuth
         else if toLowerCase (or_default (env_NODE_ENV e) []) = ''production'' then FirebaseAuth
         else DevAuth)"

definition isDevAuth :: "env \<Rightarrow> bool" where
  "isDevAuth e \<longleftrightarrow> getAuthMode e = DevAuth"

section \<open>\<open>config/firebase.ts\<close>\<close>

text \<open>A variable that is set and not empty (\<open>!process.env.X\<close> is false).\<close>

definition env_set :: "string option \<Rightarrow> bool" where
  "env_set v = (case v of None \<Rightarrow> False | Some s \<Rightarrow> s \<noteq> [])"

record fb_state =
  fb_initialized :: bool
  fb_app :: bool

text \<open>\<open>initFirebase\<close>, lines 5-27: without the three variables only the flag is set.\<close>

definition initFirebase :: "env \<Rightarrow> fb_state \<Rightarrow> fb_state" where
  "initFirebase e s =
     (if fb_initialized s then s
      else if \<not> env_set (env_FIREBASE_PROJECT_ID e) \<or> \<not> env_set (env_FIREBASE_CLIENT_EMAIL e) \<or>
              \<not> env_set (env_FIREBASE_PRIVATE_KEY e)
      then s\<lparr>fb_initialized := True\<rparr>
      else \<lparr>fb_initialized = True, fb_app = True\<rparr>)"

text \<open>\<open>verifyIdToken\<close>, lines 29-38: no app, no uid.\<close>

definition verifyIdToken :: "(string \<Rightarrow> string option) \<Rightarrow> fb_state \<Rightarrow> string \<Rightarrow> string option" where
  "verifyIdToken check s tok = (if \<not> fb_app s then None else check tok)"

section \<open>\<open>middlewares/authFirebase.ts\<close>\<close>

text \<open>What the middleware attaches to the request: \<open>{ id: "dev" }\<close> or \<open>{ uid }\<close>.\<close>

datatype req_user = DevUser | TokenUser string

text \<open>\<open>String.prototype.replace\<close> with a string pattern: the first occurrence only,
  wherever it is.\<close>

fun replace_first :: "string \<Rightarrow> string \<Rightarrow> string \<Rightarrow> string" where
  "replace_first pat rep [] = (if pat = [] then rep else [])"
| "replace_first pat rep (c # cs) =
     (if take (length pat) (c # cs) = pat then rep @ drop (length pat) (c # cs)
      else c # replace_first pat rep cs)"

text \<open>\<open>authFirebase\<close>, lines 7-26: a missing (or empty) header passes in dev mode only;
  otherwise the token after \<open>Bearer \<close> must verify.\<close>

definition authFirebase ::
  "env \<Rightarrow> (string \<Rightarrow> string option) \<Rightarrow> fb_state \<Rightarrow> string option \<Rightarrow> req_user outcome" where
  "authFirebase e check s header =
     (if header = None \<or> header = Some []
      then (if isDevAuth e then Done DevUser else Refused 401 ''Unauthorized'')
      else (case verifyIdToken check s (replace_first ''Bearer '' [] (the header)) of
              None \<Rightarrow> Refused 401 ''Unauthorized''
            | Some uid \<Rightarrow> Done (TokenUser uid)))"

section \<open>\<open>getRequestingUser\<close>\<close>

text \<open>JavaScript truthiness of a parsed field.\<close>

definition truthy :: "json option \<Rightarrow> bool" where
  "truthy v =
     (case v of None \<Rightarrow> False | Some JNull \<Rightarrow> False | Some (JBool b) \<Rightarrow> b
      | Some (JNum q) \<Rightarrow> q \<noteq> 0 | Some (JStr s) \<Rightarrow> s \<noteq> [] | Some (JArr _) \<Rightarrow> True
      | Some (JObj _) \<Rightarrow> True)"

record caller =
  c_user :: req_user
  c_bodyUserId :: "json option"
  c_queryUserId :: "json option"

text \<open>users.ts lines 21-40: in dev mode the id named by the body or the query (a
  missing user throws); in Firebase mode the user of the token's uid, created on first
  use. The error is the message the handlers turn into a 500.\<close>

definition getRequestingUser :: "env \<Rightarrow> caller \<Rightarrow> user_id \<Rightarrow> user_db \<Rightarrow> (string + user_id) \<times> user_db" where
  "getRequestingUser e c fresh db =
     (if isDevAuth e
      then (case (if truthy (c_bodyUserId c) then c_bodyUserId c else c_queryUserId c) of
              Some (JStr u) \<Rightarrow>
                (case getUserById u db of
                   None \<Rightarrow> (Inl (''User with ID '' @ u @ '' not found.''), db)
                 | Some _ \<Rightarrow> (Inr u, db))
            | _ \<Rightarrow> (Inl ''A userId is required in the body or query in dev mode.'', db))
      else (case c_user c of
              TokenUser a \<Rightarrow>
                (case getOrCreateUserByAuthUid a fresh db of
                   (Inl _, db1) \<Rightarrow> (Inl ''Unique constraint failed'', db1)
                 | (Inr u, db1) \<Rightarrow> (Inr u, db1))
            | DevUser \<Rightarrow> (Inl ''User not authenticated. No Firebase UID found in request.'', db)))"

section \<open>\<open>POST /users/login-or-register\<close>\<close>

text \<open>users.ts lines 109-174, dev mode only: the user with the given name, or a new one
  with 100 gems (the \<open>cashBalance\<close> and \<open>bonusBalance\<close> columns it also writes are read by
  no other code). The answer is the id, the name and the gem balance.\<close>

definition loginOrRegister :: "env \<Rightarrow> json option \<Rightarrow> user_id \<Rightarrow> user_db \<Rightarrow> (user_id \<times> string \<times> int) outcome \<times> user_db" where
  "loginOrRegister e body fresh db =
     (if \<not> isDevAuth e then (Refused 403 ''This endpoint is only available in dev mode.'', db)
      else case Option.bind body (\<lambda>b. get_prop b ''username'') of
        Some (JStr n) \<Rightarrow>
          (if n = [] \<or> 20 < length n then (Refused 400 ''Invalid username'', db)
           else case find_by_username n db of
             Some u \<Rightarrow>
               (Done (u, n, case accounts (ud_ledger db) u of None \<Rightarrow> 0 | Some a \<Rightarrow> gemBalance a), db)
           | None \<Rightarrow>
               (case user_create fresh \<lparr>usr_authUid = None, usr_username = Some n\<rparr> 100 0 db of
                  Inl _ \<Rightarrow> (Refused 500 ''Failed to login or register'', db)
                | Inr db' \<Rightarrow> (Done (fresh, n, 100), db')))
      | _ \<Rightarrow> (Refused 400 ''Invalid username'', db))"

section \<open>Scenario\<close>

text \<open>A Firebase deployment whose SDK accepts the one token \<open>tok-a\<close>, of uid \<open>uid-a\<close>
  (Alice's in \<open>Users.demo_users\<close>).\<close>

definition demo_env :: env where
  "demo_env = \<lparr>env_AUTH_MODE = Some ''firebase'', env_NODE_ENV = None, env_FIREBASE_PROJECT_ID = Some ''p'',
               env_FIREBASE_CLIENT_EMAIL = Some ''e'', env_FIREBASE_PRIVATE_KEY = Some ''k''\<rparr>"

definition demo_check :: "string \<Rightarrow> string option" where
  "demo_check t = (if t = ''tok-a'' then Some ''uid-a'' else None)"

section \<open>Lemmas\<close>

lemma replace_first_prefix: "replace_first pat [] (pat @ s) = s"
proof (cases "pat @ s")
  case Nil
  then show ?thesis by simp
next
  case (Cons c cs)
  have "take (length pat) (c # cs) = pat" "drop (length pat) (c # cs) = s"
    using Cons [symmetric] by simp_all
  then show ?thesis by (simp add: Cons)
qed

lemma authFirebase_Done:
  assumes "authFirebase e check s header = Done ru"
  shows "(ru = DevUser \<and> isDevAuth e) \<or>
         (\<exists>a uid. header = Some a \<and> a \<noteq> [] \<and> fb_app s \<and> check (replace_first ''Bearer '' [] a) = Some uid \<and> ru = TokenUser uid)"
  using assms by (auto simp: authFirebase_def verifyIdToken_def split: if_splits option.splits)

lemma getOrCreate_found:
  assumes "getOrCreateUserByAuthUid a fresh db = (Inr u, db')"
  shows "find_by_authUid a db' = Some u"
proof (cases "find_by_authUid a db")
  case (Some v)
  then show ?thesis using assms by (simp add: getOrCreateUserByAuthUid_def)
next
  case None
  then obtain db1 where c: "user_create fresh \<lparr>usr_authUid = Some a, usr_username = None\<rparr> 100 0 db = Inr db1"
    and "u = fresh" "db' = db1"
    using assms by (auto simp: getOrCreateUserByAuthUid_def split: sum.splits)
  moreover have "find (\<lambda>(i, r). usr_authUid r = Some a) (ud_rows db) = None"
    using None by (simp add: find_by_authUid_def)
  ultimately show ?thesis
    using user_create_Inr [OF c] by (simp add: find_by_authUid_def find_append)
qed

lemma getUserById_has_id: "has_id v db \<Longrightarrow> getUserById v db \<noteq> None"
  by (auto simp: getUserById_def has_id_iff map_of_eq_None_iff)

lemma loginOrRegister_cases:
  assumes "loginOrRegister e body fresh db = (Done (u, n, g), db')"
  shows "isDevAuth e \<and> n \<noteq> [] \<and> length n \<le> 20 \<and>
         ((find_by_username n db = Some u \<and> db' = db) \<or>
          (find_by_username n db = None \<and> u = fresh \<and> g = 100 \<and>
           user_create fresh \<lparr>usr_authUid = None, usr_username = Some n\<rparr> 100 0 db = Inr db'))"
  using assms
  by (auto simp: loginOrRegister_def split: if_splits option.splits json.splits sum.splits)

section \<open>Properties\<close>

text \<open>C9: In Firebase mode a request reaches a handler only with a token the
  SDK verified, and \<open>getRequestingUser\<close> then resolves to the user of that token's uid:
  a user id the client puts in the body or the query is ignored.\<close>

theorem firebase_identity:
  assumes "getAuthMode e = FirebaseAuth"
    and "authFirebase e check s header = Done (c_user c)"
    and "getRequestingUser e c fresh db = (Inr u, db')"
  shows "\<exists>a uid. header = Some a \<and> check (replace_first ''Bearer '' [] a) = Some uid \<and>
                find_by_authUid uid db' = Some u"
proof -
  have nd: "\<not> isDevAuth e" using assms(1) by (simp add: isDevAuth_def)
  then obtain a uid where h: "header = Some a" "check (replace_first ''Bearer '' [] a) = Some uid"
    and cu: "c_user c = TokenUser uid"
    using authFirebase_Done [OF assms(2)] by blast
  have "getOrCreateUserByAuthUid uid fresh db = (Inr u, db')"
    using assms(3) nd cu by (auto simp: getRequestingUser_def split: prod.splits sum.splits)
  then show ?thesis using h getOrCreate_found by blast
qed

text \<open>C26: With neither \<open>AUTH_MODE\<close> nor \<open>NODE_ENV\<close> set the server runs in dev
  mode: a request without an authorization header passes the middleware, and a caller that
  names the id of any existing user in the body acts as that user.\<close>

theorem default_dev_impersonation:
  assumes "env_AUTH_MODE e = None" "env_NODE_ENV e = None" "has_id v db" "v \<noteq> []"
  shows "authFirebase e check s None = Done DevUser \<and>
         getRequestingUser e \<lparr>c_user = DevUser, c_bodyUserId = Some (JStr v), c_queryUserId = q\<rparr> fresh db =
           (Inr v, db)"
proof -
  have "isDevAuth e" using assms(1,2) by (simp add: isDevAuth_def getAuthMode_def toLowerCase_def)
  then show ?thesis
    using getUserById_has_id [OF assms(3)] assms(4)
    by (auto simp: authFirebase_def getRequestingUser_def truthy_def)
qed

text \<open>When the Firebase variables are missing, \<open>initFirebase\<close> sets up no
  app, and the middleware then refuses with 401 every request that carries an
  authorization header, in dev mode too.\<close>

theorem unconfigured_token_refused:
  assumes "\<not> env_set (env_FIREBASE_PROJECT_ID e)" "\<not> fb_app s" "a \<noteq> []"
  shows "authFirebase e check (initFirebase e s) (Some a) = Refused 401 ''Unauthorized''"
  using assms by (simp add: authFirebase_def initFirebase_def verifyIdToken_def)

text \<open>The dev login keeps ids and usernames unique and every user with an
  account, and its answer names the user that holds the name afterwards, a new user with
  100 gems when the name was free.\<close>

theorem loginOrRegister_ok:
  assumes "users_ok db" "loginOrRegister e body fresh db = (Done (u, n, g), db')"
  shows "users_ok db' \<and> find_by_username n db' = Some u \<and>
         (find_by_username n db = None \<longrightarrow> g = 100 \<and> getUserBalance u db' = Some (100, 0))"
proof -
  note c = loginOrRegister_cases [OF assms(2)]
  show ?thesis
  proof (cases "find_by_username n db")
    case (Some v)
    then show ?thesis using c assms(1) by auto
  next
    case None
    then have u: "u = fresh" "g = 100"
      and cr: "user_create fresh \<lparr>usr_authUid = None, usr_username = Some n\<rparr> 100 0 db = Inr db'"
      using c by auto
    note f = user_create_Inr [OF cr]
    have ok: "users_ok db'" by (rule user_create_ok [OF assms(1) cr])
    have "(fresh, \<lparr>usr_authUid = None, usr_username = Some n\<rparr>) \<in> set (ud_rows db')" using f by simp
    then have "find_by_username n db' = Some fresh" using find_by_username_unique [OF ok] by simp
    moreover have "getUserBalance fresh db' = Some (100, 0)"
    proof -
      have "map_of (ud_rows db) fresh = None" using f by (simp add: map_of_eq_None_iff)
      then show ?thesis using f by (simp add: getUserBalance_def getUserById_def map_add_def)
    qed
    ultimately show ?thesis using ok u by simp
  qed
qed

section \<open>Witnesses\<close>

lemma demo_env_mode: "getAuthMode demo_env = FirebaseAuth"
  by (simp add: getAuthMode_def demo_env_def toLowerCase_def to_lower_char_def)

theorem firebase_identity_witness:
  "authFirebase demo_env demo_check \<lparr>fb_initialized = True, fb_app = True\<rparr> (Some ''Bearer tok-a'') =
     Done (TokenUser ''uid-a'') \<and>
   getRequestingUser demo_env \<lparr>c_user = TokenUser ''uid-a'', c_bodyUserId = Some (JStr ''bob''), c_queryUserId = None\<rparr>
     ''x'' demo_users = (Inr ''alice'', demo_users) \<and>
   find_by_authUid ''uid-a'' demo_users = Some ''alice''"
proof -
  have nd: "\<not> isDevAuth demo_env" using demo_env_mode by (simp add: isDevAuth_def)
  have a: "authFirebase demo_env demo_check \<lparr>fb_initialized = True, fb_app = True\<rparr> (Some ''Bearer tok-a'') =
     Done (c_user \<lparr>c_user = TokenUser ''uid-a'', c_bodyUserId = Some (JStr ''bob''), c_queryUserId = None\<rparr>)"
    using nd by (simp add: authFirebase_def verifyIdToken_def demo_check_def)
  have f: "find_by_authUid ''uid-a'' demo_users = Some ''alice''" by (simp add: find_by_authUid_def demo_users_def)
  have g: "getRequestingUser demo_env \<lparr>c_user = TokenUser ''uid-a'', c_bodyUserId = Some (JStr ''bob''), c_queryUserId = None\<rparr>
     ''x'' demo_users = (Inr ''alice'', demo_users)"
    using nd f by (simp add: getRequestingUser_def getOrCreateUserByAuthUid_def)
  from firebase_identity [OF demo_env_mode a g] a g f show ?thesis by simp
qed

theorem default_dev_impersonation_witness:
  "authFirebase (demo_env\<lparr>env_AUTH_MODE := None\<rparr>) demo_check \<lparr>fb_initialized = True, fb_app = False\<rparr> None = Done DevUser \<and>
   getRequestingUser (demo_env\<lparr>env_AUTH_MODE := None\<rparr>)
     \<lparr>c_user = DevUser, c_bodyUserId = Some (JStr ''alice''), c_queryUserId = None\<rparr> ''x'' demo_users =
     (Inr ''alice'', demo_users)"
proof -
  have h: "env_AUTH_MODE (demo_env\<lparr>env_AUTH_MODE := None\<rparr>) = None" "env_NODE_ENV (demo_env\<lparr>env_AUTH_MODE := None\<rparr>) = None"
    "has_id ''alice'' demo_users" "''alice'' \<noteq> []"
    by (simp_all add: demo_env_def has_id_def demo_users_def)
  show ?thesis using default_dev_impersonation [OF h] by simp
qed

theorem unconfigured_token_refused_witness:
  "authFirebase (demo_env\<lparr>env_FIREBASE_PROJECT_ID := None\<rparr>) demo_check
     (initFirebase (demo_env\<lparr>env_FIREBASE_PROJECT_ID := None\<rparr>) \<lparr>fb_initialized = False, fb_app = False\<rparr>)
     (Some ''Bearer tok-a'') = Refused 401 ''Unauthorized''"
proof -
  have h: "\<not> env_set (env_FIREBASE_PROJECT_ID (demo_env\<lparr>env_FIREBASE_PROJECT_ID := None\<rparr>))"
    "\<not> fb_app \<lparr>fb_initialized = False, fb_app = False\<rparr>" "''Bearer tok-a'' \<noteq> []"
    by (simp_all add: env_set_def)
  show ?thesis using unconfigured_token_refused [OF h] .
qed

theorem loginOrRegister_ok_witness:
  "loginOrRegister (demo_env\<lparr>env_AUTH_MODE := Some ''dev''\<rparr>) (Some (JObj [(''username'', JStr ''carol'')])) ''carol'' demo_users =
     (Done (''carol'', ''carol'', 100), snd (loginOrRegister (demo_env\<lparr>env_AUTH_MODE := Some ''dev''\<rparr>)
        (Some (JObj [(''username'', JStr ''carol'')])) ''carol'' demo_users)) \<and>
   getUserBalance ''carol'' (snd (loginOrRegister (demo_env\<lparr>env_AUTH_MODE := Some ''dev''\<rparr>)
        (Some (JObj [(''username'', JStr ''carol'')])) ''carol'' demo_users)) = Some (100, 0)"
proof -
  let ?e = "demo_env\<lparr>env_AUTH_MODE := Some ''dev''\<rparr>" and ?b = "Some (JObj [(''username'', JStr ''carol'')])"
  have dev: "isDevAuth ?e" by (simp add: isDevAuth_def getAuthMode_def demo_env_def toLowerCase_def to_lower_char_def)
  have nf: "find_by_username ''carol'' demo_users = None" by (simp add: find_by_username_def demo_users_def)
  have r: "fst (loginOrRegister ?e ?b ''carol'' demo_users) = Done (''carol'', ''carol'', 100)"
    using dev nf by (simp add: loginOrRegister_def get_prop_def user_create_def has_id_def demo_users_def
                               find_by_authUid_def)
  then have "loginOrRegister ?e ?b ''carol'' demo_users = (Done (''carol'', ''carol'', 100), snd (loginOrRegister ?e ?b ''carol'' demo_users))"
    by (metis prod.collapse)
  with loginOrRegister_ok [OF demo_users_ok this] nf show ?thesis by simp
qed

end
