(* ===== verification/Queries.thy ===== *)
theory Queries
  imports Engine Auth
begin

text \<open>
  The endpoints that read the state without changing the match store or the ledger:
  \<open>POST /validate/words\<close> and \<open>GET /validate/word\<close> (modules/validate.ts),
  \<open>POST /boards\<close> (modules/boards.ts), \<open>GET /lobbies\<close> (modules/lobbies.ts),
  \<open>GET /wallet/transactions\<close> (modules/wallet.ts), and the reads of modules/matches.ts:
  \<open>GET /matches/:matchId\<close>, \<open>GET /matches/:matchId/details\<close> and \<open>GET /matches\<close>, which
  fall back to the \<open>completedMatch\<close> history for a match no longer in the store, and
  \<open>GET /users/matches\<close> of modules/users.ts. The caller is resolved by
  \<open>Auth.getRequestingUser\<close>, which may create the caller's user row; that is the only
  write of these endpoints.
\<close>

section \<open>\<open>modules/validate.ts\<close>\<close>

text \<open>\<open>POST /validate/words\<close>, lines 10-18: \<open>req.body || {}\<close>, then an optional array of
  strings, each upper-cased and looked up.\<close>

definition validate_words :: "dict_state \<Rightarrow> json option \<Rightarrow> (string \<times> bool) list outcome" where
  "validate_words st body =
     (let b = (if truthy body then the body else JObj [])
      in case b of
           JObj _ \<Rightarrow>
             (case get_prop b ''words'' of
                None \<Rightarrow> Done []
              | Some (JArr xs) \<Rightarrow>
                  (if list_all (\<lambda>x. case x of JStr _ \<Rightarrow> True | _ \<Rightarrow> False) xs
                   then Done (map (\<lambda>x. case x of JStr s \<Rightarrow> (toUpperCase s, isWord st (toUpperCase s))
                                            | _ \<Rightarrow> ([], False)) xs)
                   else Refused 400 ''Expected string'')
              | Some _ \<Rightarrow> Refused 400 ''Expected array'')
         | _ \<Rightarrow> Refused 400 ''Expected object'')"

text \<open>\<open>GET /validate/word\<close>, lines 20-27, for a query field that is a string or absent.\<close>

definition validate_word :: "dict_state \<Rightarrow> string option \<Rightarrow> (string \<times> bool \<times> bool) outcome" where
  "validate_word st q =
     (let s = or_default q []
      in if s = [] then Refused 400 ''String must contain at least 1 character(s)''
         else (let w = toUpperCase s in Done (w, isWord st w, hasPrefix st w)))"

section \<open>\<open>modules/boards.ts\<close>\<close>

text \<open>\<open>POST /boards\<close>, lines 12-24: an integer size from 4 to 6, 4 by default; the
  answer is the seed \<open>Date.now().toString(36)\<close>, the size and a fresh board.\<close>

definition createBoard :: "ms \<Rightarrow> json option \<Rightarrow> (string \<times> nat \<times> board) outcome" where
  "createBoard now body =
     (case body of
        Some (JObj kvs) \<Rightarrow>
          (case get_prop (JObj kvs) ''size'' of
             None \<Rightarrow> Done (to_base36 now, 4, generateDiceBoard 4 now)
           | Some (JNum q) \<Rightarrow>
               (if of_int \<lfloor>q\<rfloor> = q \<and> 4 \<le> q \<and> q \<le> 6
                then Done (to_base36 now, nat \<lfloor>q\<rfloor>, generateDiceBoard (nat \<lfloor>q\<rfloor>) now)
                else Refused 400 ''Invalid size'')
           | Some _ \<Rightarrow> Refused 400 ''Expected number'')
      | _ \<Rightarrow> Refused 400 ''Expected object'')"

section \<open>\<open>modules/lobbies.ts\<close>\<close>

record lobby_summary =
  ls_lobbyId :: lobby_type
  ls_name :: string
  ls_entryFee :: int
  ls_prizePool :: int
  ls_maxPlayers :: nat
  ls_currentPlayers :: nat
  ls_difficulty :: string
  ls_boardSize :: nat
  ls_gameDuration :: nat

text \<open>Lines 25-26.\<close>

definition lobby_difficulty :: "lobby_config \<Rightarrow> string" where
  "lobby_difficulty c =
     (if cfg_boardSize c = 5 then (if 120 < cfg_gameDuration c then ''hard'' else ''medium'') else ''easy'')"

text \<open>The summary of a catalogue entry, lines 17-31.\<close>

definition lobby_summary :: "lobby_config \<Rightarrow> lobby_summary" where
  "lobby_summary c =
     \<lparr>ls_lobbyId = cfg_lobbyType c,
      ls_name = cfg_name c @ '' - '' @ show_int (cfg_totalPrizeGems c) @ '' gems total'',
      ls_entryFee = cfg_entryFee c, ls_prizePool = cfg_totalPrizeGems c,
      ls_maxPlayers = cfg_maxPlayers c, ls_currentPlayers = 0,
      ls_difficulty = lobby_difficulty c, ls_boardSize = cfg_boardSize c,
      ls_gameDuration = cfg_gameDuration c\<rparr>"

text \<open>Lines 37-45: the seats of the lobby's waiting matches.\<close>

definition current_players :: "store \<Rightarrow> lobby_type \<Rightarrow> nat" where
  "current_players st lt =
     sum_list (map (\<lambda>m. length (players m))
       (filter (\<lambda>m. lobbyType m = lt \<and> status m = Waiting) (listAll st)))"

text \<open>\<open>GET /lobbies\<close>, lines 33-51.\<close>

definition list_lobbies :: "lobby_config list \<Rightarrow> store \<Rightarrow> lobby_summary list" where
  "list_lobbies cat st =
     map (\<lambda>c. (lobby_summary c)\<lparr>ls_currentPlayers := current_players st (cfg_lobbyType c)\<rparr>) cat"

section \<open>\<open>modules/wallet.ts\<close>\<close>

text \<open>A query number after \<open>z.coerce.number()\<close>: absent, a number, or \<open>NaN\<close> (a string
  that is not a number).\<close>

datatype coerced = Absent | Num rat | NotANumber

text \<open>\<open>GetTransactionsSchema\<close>, lines 13-16: a positive integer \<open>limit\<close> (50 by
  default) and a nonnegative integer \<open>offset\<close> (0 by default).\<close>

definition parse_page :: "coerced \<Rightarrow> coerced \<Rightarrow> string + nat \<times> nat" where
  "parse_page qlim qoff =
     (case (case qlim of Absent \<Rightarrow> Some 50
                      | Num q \<Rightarrow> if of_int \<lfloor>q\<rfloor> = q \<and> 0 < q then Some (nat \<lfloor>q\<rfloor>) else None
                      | NotANumber \<Rightarrow> None,
            case qoff of Absent \<Rightarrow> Some 0
                      | Num q \<Rightarrow> if of_int \<lfloor>q\<rfloor> = q \<and> 0 \<le> q then Some (nat \<lfloor>q\<rfloor>) else None
                      | NotANumber \<Rightarrow> None) of
        (Some l, Some k) \<Rightarrow> Inr (l, k)
      | _ \<Rightarrow> Inl ''Invalid query'')"

text \<open>\<open>prisma.transaction.findMany\<close>, lines 56-61: the user's rows, newest first
  (\<open>createdAt\<close> grows along the journal, which is kept in insertion order), \<open>skip\<close>
  then \<open>take\<close>.\<close>

definition tx_page :: "user_id \<Rightarrow> nat \<Rightarrow> nat \<Rightarrow> ledger \<Rightarrow> txn list" where
  "tx_page u limit offset l = take limit (drop offset (rev (filter (\<lambda>t. tx_userId t = u) (txns l))))"

text \<open>The string \<open>addTransaction\<close> stores in the \<open>currency\<close> column.\<close>

definition currency_name :: "currency \<Rightarrow> string" where
  "currency_name c = (case c of Gems \<Rightarrow> ''gems'' | BonusGems \<Rightarrow> ''bonus_gems'')"

record tx_view =
  txv_type :: string
  txv_amount :: int
  txv_currency :: string
  txv_description :: string
  txv_matchId :: "match_id option"
  txv_lobbyId :: "lobby_type option"

text \<open>The formatting of lines 63-73 (the row id and timestamp are not modelled).\<close>

definition format_tx :: "txn \<Rightarrow> tx_view" where
  "format_tx t =
     \<lparr>txv_type = tx_type t, txv_amount = tx_amount t,
      txv_currency = (if currency_name (tx_currency t) = ''bonus'' then ''bonusCash'' else currency_name (tx_currency t)),
      txv_description = (case tx_note t of None \<Rightarrow> [] | Some n \<Rightarrow> n),
      txv_matchId = (case tx_matchId t of None \<Rightarrow> None | Some m \<Rightarrow> if m = [] then None else Some m),
      txv_lobbyId = (case tx_lobbyType t of None \<Rightarrow> None | Some x \<Rightarrow> if x = [] then None else Some x)\<rparr>"

text \<open>\<open>GET /wallet/transactions\<close>, lines 47-83: the caller first (a failure is a 500),
  then the query.\<close>

definition wallet_transactions ::
  "env \<Rightarrow> caller \<Rightarrow> user_id \<Rightarrow> coerced \<Rightarrow> coerced \<Rightarrow> user_db \<Rightarrow> tx_view list outcome \<times> user_db" where
  "wallet_transactions e c fresh qlim qoff db =
     (case getRequestingUser e c fresh db of
        (Inl _, db1) \<Rightarrow> (Refused 500 ''Failed to get transactions'', db1)
      | (Inr u, db1) \<Rightarrow>
          (case parse_page qlim qoff of
             Inl msg \<Rightarrow> (Refused 400 msg, db1)
           | Inr (limit, offset) \<Rightarrow> (Done (map format_tx (tx_page u limit offset (ud_ledger db1))), db1)))"

section \<open>Reads of \<open>modules/matches.ts\<close>\<close>

text \<open>A history row read back as a match (lines 519-533, 557-571 and 648-662): completed,
  with \<open>autoCompleteAt\<close> the end time. The \<open>endedAt\<close> column is not nullable:
  \<open>new Date(null)\<close> stored the epoch for a match without an end. The table has no
  \<open>payoutAt\<close> column, so it reads as absent.\<close>

definition hydrate :: "match_id \<Rightarrow> completed_row \<Rightarrow> internal_match" where
  "hydrate mid cm =
     \<lparr>match_id = mid, lobbyType = cm_lobbyType cm, match_board = cm_board cm,
      createdAt = cm_createdAt cm, startedAt = cm_startedAt cm,
      endedAt = Some (or_default (cm_endedAt cm) 0), entryFee = cm_entryFee cm,
      prizePool = cm_prizePool cm, gameDuration = cm_gameDuration cm, players = cm_players cm,
      status = Completed, autoCompleteAt = or_default (cm_endedAt cm) 0, payoutAt = None\<rparr>"

text \<open>The store first, then \<open>prisma.completedMatch.findUnique\<close>.\<close>

definition find_match :: "world \<Rightarrow> match_id \<Rightarrow> internal_match option" where
  "find_match w mid =
     (case repo_get (w_store w) mid of
        Some m \<Rightarrow> Some m
      | None \<Rightarrow> map_option (hydrate mid) (map_of (w_history w) mid))"

text \<open>\<open>GET /matches/:matchId\<close>, lines 507-544.\<close>

definition get_match ::
  "env \<Rightarrow> caller \<Rightarrow> user_id \<Rightarrow> ms \<Rightarrow> match_id \<Rightarrow> world \<Rightarrow> user_db \<Rightarrow> client_view outcome \<times> user_db" where
  "get_match e c fresh now mid w db =
     (case getRequestingUser e c fresh db of
        (Inl _, db1) \<Rightarrow> (Refused 500 ''Failed to get match'', db1)
      | (Inr u, db1) \<Rightarrow>
          (case find_match w mid of
             None \<Rightarrow> (Refused 404 ''match not found'', db1)
           | Some m \<Rightarrow> (Done (toClientMatch m u now), db1)))"

record player_detail =
  pd_id :: user_id
  pd_name :: string
  pd_words :: "string list"
  pd_score :: int
  pd_joinedAt :: ms
  pd_submittedAt :: "ms option"
  pd_paidEntry :: bool
  pd_isCurrentUser :: bool

record match_details =
  md_matchId :: match_id
  md_lobbyId :: lobby_type
  md_board :: board
  md_status :: status
  md_createdAt :: ms
  md_startedAt :: "ms option"
  md_endedAt :: "ms option"
  md_entryFee :: int
  md_prizePool :: int
  md_gameDuration :: nat
  md_players :: "player_detail list"
  md_timeRemaining :: int

text \<open>The details object, lines 585-617: the time left is the match's duration less the
  whole seconds since it was created, at least 0, and 0 once it is completed.\<close>

definition details_view :: "internal_match \<Rightarrow> user_id \<Rightarrow> ms \<Rightarrow> match_details" where
  "details_view m u now =
     \<lparr>md_matchId = match_id m, md_lobbyId = lobbyType m, md_board = match_board m,
      md_status = status m, md_createdAt = createdAt m, md_startedAt = startedAt m,
      md_endedAt = endedAt m, md_entryFee = entryFee m, md_prizePool = prizePool m,
      md_gameDuration = gameDuration m,
      md_players = map (\<lambda>p. \<lparr>pd_id = player_id p, pd_name = name p, pd_words = words p,
                              pd_score = score p, pd_joinedAt = joinedAt p,
                              pd_submittedAt = submittedAt p, pd_paidEntry = paidEntry p,
                              pd_isCurrentUser = (player_id p = u)\<rparr>) (players m),
      md_timeRemaining =
        (if status m = Completed then 0
         else max 0 (int (gameDuration m) - (int now - int (createdAt m)) div 1000))\<rparr>"

text \<open>\<open>GET /matches/:matchId/details\<close>, lines 547-626: only a player of the match is
  answered (403 otherwise).\<close>

definition get_details ::
  "env \<Rightarrow> caller \<Rightarrow> user_id \<Rightarrow> ms \<Rightarrow> match_id \<Rightarrow> world \<Rightarrow> user_db \<Rightarrow> match_details outcome \<times> user_db" where
  "get_details e c fresh now mid w db =
     (case getRequestingUser e c fresh db of
        (Inl _, db1) \<Rightarrow> (Refused 500 ''Failed to get match details'', db1)
      | (Inr u, db1) \<Rightarrow>
          (case find_match w mid of
             None \<Rightarrow> (Refused 404 ''match not found'', db1)
           | Some m \<Rightarrow>
               (case find_player m u of
                  None \<Rightarrow> (Refused 403 ''user not in this match'', db1)
                | Some _ \<Rightarrow> (Done (details_view m u now), db1))))"

text \<open>\<open>prisma.completedMatch.findMany({ orderBy: { endedAt: "desc" }, take: 50 })\<close>.\<close>

definition recent_completed :: "(match_id \<times> completed_row) list \<Rightarrow> (match_id \<times> completed_row) list" where
  "recent_completed h = take 50 (sort_key (\<lambda>(i, r). - int (or_default (cm_endedAt r) 0)) h)"

text \<open>Lines 641-663: the recent rows in which the user played, read back as matches.\<close>

definition completed_for_user :: "user_id \<Rightarrow> (match_id \<times> completed_row) list \<Rightarrow> internal_match list" where
  "completed_for_user u h =
     map (\<lambda>(i, r). hydrate i r)
       (filter (\<lambda>(i, r). list_ex (\<lambda>p. player_id p = u) (cm_players r)) (recent_completed h))"

text \<open>Lines 665-669: a \<open>Map\<close> keyed by id, set with the completed matches and then the
  active ones; \<open>Map.set\<close> on a present key keeps its place (\<open>AList.update\<close>).\<close>

definition merge_by_id :: "internal_match list \<Rightarrow> internal_match list \<Rightarrow> internal_match list" where
  "merge_by_id completed active =
     map snd (fold (\<lambda>m acc. AList.update (match_id m) m acc) (completed @ active) [])"

text \<open>\<open>GET /matches\<close>, lines 628-680.\<close>

definition list_matches ::
  "env \<Rightarrow> caller \<Rightarrow> user_id \<Rightarrow> ms \<Rightarrow> world \<Rightarrow> user_db \<Rightarrow> client_view list outcome \<times> user_db" where
  "list_matches e c fresh now w db =
     (case getRequestingUser e c fresh db of
        (Inl _, db1) \<Rightarrow> (Refused 500 ''Failed to get matches'', db1)
      | (Inr u, db1) \<Rightarrow>
          (Done (map (\<lambda>m. toClientMatch m u now)
                   (merge_by_id (completed_for_user u (w_history w)) (listByUser (w_store w) u))), db1))"

section \<open>\<open>GET /users/matches\<close>\<close>

record match_row =
  mr_matchId :: match_id
  mr_lobbyId :: lobby_type
  mr_status :: status
  mr_createdAt :: ms
  mr_startedAt :: "ms option"
  mr_endedAt :: ms
  mr_entryFee :: int
  mr_prizePool :: int
  mr_myScore :: int
  mr_opponentScore :: int

text \<open>users.ts lines 191-210: the caller's score and the first other player's score.\<close>

definition user_match_row :: "user_id \<Rightarrow> match_id \<times> completed_row \<Rightarrow> match_row" where
  "user_match_row u ir =
     (let (i, r) = ir;
          me = find (\<lambda>p. player_id p = u) (cm_players r);
          other = find (\<lambda>p. player_id p \<noteq> u) (cm_players r)
      in \<lparr>mr_matchId = i, mr_lobbyId = cm_lobbyType r, mr_status = cm_status r,
          mr_createdAt = cm_createdAt r, mr_startedAt = cm_startedAt r,
          mr_endedAt = or_default (cm_endedAt r) 0, mr_entryFee = cm_entryFee r,
          mr_prizePool = cm_prizePool r,
          mr_myScore = (case me of None \<Rightarrow> 0 | Some p \<Rightarrow> score p),
          mr_opponentScore = (case other of None \<Rightarrow> 0 | Some p \<Rightarrow> score p)\<rparr>)"

text \<open>\<open>GET /users/matches\<close>, lines 177-221. The rows are those the database returns for
  the \<open>string_contains\<close> filter on the JSON text of the players column, whose matching
  depends on the database's JSON rendering; they are a parameter.\<close>

definition user_matches ::
  "env \<Rightarrow> caller \<Rightarrow> user_id \<Rightarrow> (match_id \<times> completed_row) list \<Rightarrow> user_db \<Rightarrow> match_row list outcome \<times> user_db" where
  "user_matches e c fresh rows db =
     (case getRequestingUser e c fresh db of
        (Inl _, db1) \<Rightarrow> (Refused 500 ''Failed to get user matches'', db1)
      | (Inr u, db1) \<Rightarrow> (Done (map (user_match_row u) rows), db1))"

section \<open>Scenario\<close>

text \<open>The ledger of theory \<open>Ledger\<close> with a journal: Alice's entry fee, Bob's entry
  fee, Alice's prize and a bonus-gem row of Alice's.\<close>

definition demo_journal :: ledger where
  "demo_journal = demo_ledger\<lparr>txns :=
     [new_txn ''alice'' ''entryFee'' (-100) Gems None (Some ''classic-1'') (Some ''classic''),
      new_txn ''bob'' ''entryFee'' (-100) Gems None (Some ''classic-1'') (Some ''classic''),
      new_txn ''alice'' ''prize'' 180 Gems (Some ''Prize for 1st place'') (Some ''classic-1'') (Some ''classic''),
      new_txn ''alice'' ''bonus'' 5 BonusGems None None None]\<rparr>"

section \<open>Lemmas on the lobby listing\<close>

lemma sum_list_update:
  "sum_list (map f (map snd (AList.update k v al))) + (case map_of al k of None \<Rightarrow> 0 | Some x \<Rightarrow> f x) =
   sum_list (map f (map snd al)) + (f v :: nat)"
  by (induction al) auto

lemma sum_list_filter_if:
  "sum_list (map g (filter P xs)) = sum_list (map (\<lambda>x. if P x then g x else (0::nat)) xs)"
  by (induction xs) auto

lemma current_players_sum:
  "current_players st lt =
     sum_list (map (\<lambda>x. if lobbyType x = lt \<and> status x = Waiting then length (players x) else 0)
       (map snd (st_matches st)))"
  by (simp add: current_players_def sum_list_filter_if listAll_def)

lemma current_players_save:
  "current_players (repo_save m st) lt +
     (case repo_get st (match_id m) of None \<Rightarrow> 0
      | Some x \<Rightarrow> if lobbyType x = lt \<and> status x = Waiting then length (players x) else 0) =
   current_players st lt + (if lobbyType m = lt \<and> status m = Waiting then length (players m) else 0)"
proof -
  have "st_matches (repo_save m st) = AList.update (match_id m) m (st_matches st)"
    by (simp add: repo_save_def)
  then show ?thesis
    unfolding current_players_sum repo_get_def by (simp only: sum_list_update)
qed

text \<open>What a successful join of an idle user writes: one match of the lobby, waiting,
  saved over the joinable match it found with one more seat, or new with one seat.\<close>

lemma join_seats:
  assumes inv: "engine_inv cfgs w"
    and idle: "find (active_for u) (listByUser (w_store w) u) = None"
    and fresh: "repo_get (w_store w) (new_match_id lt now) = None"
    and j: "join cfgs now lt u nameOpt w = (Reply v, w1)"
  shows "\<exists>m'. w_store w1 = repo_save m' (w_store w) \<and> lobbyType m' = lt \<and> status m' = Waiting \<and>
           ((repo_get (w_store w) (match_id m') = None \<and> length (players m') = 1) \<or>
            (\<exists>m. repo_get (w_store w) (match_id m') = Some m \<and> lobbyType m = lt \<and> status m = Waiting \<and>
                 length (players m') = Suc (length (players m))))"
proof -
  have pre: "lt \<noteq> []" "u \<noteq> []" "nameOpt \<noteq> Some []" using j by (auto simp: join_def)
  have ix: "index_ok (w_store w)" using engine_invD(2) [OF inv] .
  define pn where "pn = (case nameOpt of None \<Rightarrow> ''Player'' | Some n \<Rightarrow> n)"
  show ?thesis
  proof (cases "find (joinable cfgs lt u) (listAll (w_store w))")
    case (Some m)
    have mem: "m \<in> set (listAll (w_store w))" and jm: "joinable cfgs lt u m"
      using find_Some_set [OF Some] by simp_all
    obtain ok l' where d: "tryDebitUser u (cfg_or cfgs lt cfg_entryFee 100) (Some (match_id m)) (Some lt) (w_ledger w) = (ok, l')"
      by (cases "tryDebitUser u (cfg_or cfgs lt cfg_entryFee 100) (Some (match_id m)) (Some lt) (w_ledger w)")
    define m' where "m' = m\<lparr>players := players m @ [new_player u pn now (now + cfg_or cfgs lt cfg_gameDuration 300 * 1000) True]\<rparr>"
    have "join cfgs now lt u nameOpt w =
            (if ok then (Reply (toClientMatch m' u now), w\<lparr>w_store := repo_save m' (w_store w), w_ledger := l'\<rparr>)
             else (Failure 402 ''insufficient funds'', w\<lparr>w_ledger := l'\<rparr>))"
      using pre idle Some d by (simp add: join_def Let_def m'_def pn_def)
    then have "w_store w1 = repo_save m' (w_store w)" using j by (auto split: if_splits)
    moreover have "repo_get (w_store w) (match_id m') = Some m"
      using listAll_repo_get [OF ix mem] by (simp add: m'_def)
    ultimately show ?thesis using jm by (auto simp: m'_def joinable_def)
  next
    case None
    then obtain cfg where c: "cfgs lt = Some cfg" using j pre idle by (auto simp: join_def split: option.splits)
    define m where "m = fresh_match cfg lt u pn now"
    obtain paid l' where d: "tryDebitUser u (cfg_entryFee cfg) (Some (match_id m)) (Some lt) (w_ledger w) = (paid, l')"
      by (cases "tryDebitUser u (cfg_entryFee cfg) (Some (match_id m)) (Some lt) (w_ledger w)")
    define m' where "m' = m\<lparr>players := map (\<lambda>p. p\<lparr>paidEntry := True\<rparr>) (players m)\<rparr>"
    have "join cfgs now lt u nameOpt w =
            (if paid then (Reply (toClientMatch m' u now), w\<lparr>w_store := repo_save m' (w_store w), w_ledger := l'\<rparr>)
             else (Failure 402 ''insufficient funds'', w\<lparr>w_ledger := l'\<rparr>))"
      using pre idle None c d by (simp add: join_def Let_def m'_def m_def pn_def)
    then have "w_store w1 = repo_save m' (w_store w)" using j by (auto split: if_splits)
    moreover have "match_id m' = new_match_id lt now \<and> lobbyType m' = lt \<and> status m' = Waiting \<and>
                   length (players m') = 1"
      by (simp add: m'_def m_def fresh_match_def)
    ultimately show ?thesis using fresh by auto
  qed
qed

section \<open>Lemmas on the reads\<close>

lemma tx_pages_concat:
  "concat (map (\<lambda>i. tx_page u k (i * k) l) [0..<n]) = tx_page u (n * k) 0 l"
proof (induction n)
  case 0
  then show ?case by (simp add: tx_page_def)
next
  case (Suc n)
  have "take (n * k + k) (rev (filter (\<lambda>t. tx_userId t = u) (txns l))) =
        take (n * k) (rev (filter (\<lambda>t. tx_userId t = u) (txns l))) @
        take k (drop (n * k) (rev (filter (\<lambda>t. tx_userId t = u) (txns l))))"
    by (rule take_add)
  then show ?case using Suc by (simp add: tx_page_def add.commute)
qed

lemma merge_fold_pairs:
  "fold (\<lambda>m acc. AList.update (match_id m) m acc) xs acc =
   fold (\<lambda>(k, v) acc. AList.update k v acc) (map (\<lambda>m. (match_id m, m)) xs) acc"
  by (simp add: fold_map comp_def)

lemma hydrate_history_row:
  "hydrate (match_id m) (history_row m ps) =
     m\<lparr>endedAt := Some (or_default (endedAt m) 0), players := ps, status := Completed,
       autoCompleteAt := or_default (endedAt m) 0, payoutAt := None\<rparr>"
  by (simp add: hydrate_def history_row_def)

lemma map_key_snd:
  "\<forall>(k, m) \<in> set F. match_id m = k \<Longrightarrow> map (\<lambda>m. (match_id m, m)) (map snd F) = F"
  by (induction F) auto

lemma settle_history:
  "settle cfgs now m w = (m2, w2) \<Longrightarrow>
   w_history w2 = saveCompletedMatch cfgs (m\<lparr>status := Completed, endedAt := Some now\<rparr>) (w_history w)"
  by (auto simp: settle_def Let_def split: if_splits)

lemma map_of_history_create:
  assumes "mid \<notin> fst ` set h"
  shows "map_of (history_create mid row h) mid = Some row"
proof -
  have "map_of h mid = None" using assms by (simp add: map_of_eq_None_iff)
  then show ?thesis using assms by (simp add: history_create_def map_add_def)
qed

section \<open>Properties of the lobby listing\<close>

text \<open>C21: A join that seats a user who is active in no stored match raises
  the waiting-player count that \<open>GET /lobbies\<close> shows for that lobby by exactly one and
  leaves the count of every other lobby as it was (when no stored match already has the
  id a new match of that lobby would get).\<close>

theorem join_lobby_count:
  assumes inv: "engine_inv cfgs w"
    and idle: "find (active_for u) (listByUser (w_store w) u) = None"
    and fresh: "repo_get (w_store w) (new_match_id lt now) = None"
    and j: "join cfgs now lt u nameOpt w = (Reply v, w1)"
  shows "current_players (w_store w1) lt = Suc (current_players (w_store w) lt) \<and>
         (\<forall>lt'. lt' \<noteq> lt \<longrightarrow> current_players (w_store w1) lt' = current_players (w_store w) lt')"
proof -
  obtain m' where s: "w_store w1 = repo_save m' (w_store w)" and l: "lobbyType m' = lt" "status m' = Waiting"
    and c: "(repo_get (w_store w) (match_id m') = None \<and> length (players m') = 1) \<or>
            (\<exists>m. repo_get (w_store w) (match_id m') = Some m \<and> lobbyType m = lt \<and> status m = Waiting \<and>
                 length (players m') = Suc (length (players m)))"
    using join_seats [OF inv idle fresh j] by blast
  have k: "\<And>k. current_players (w_store w1) k +
     (case repo_get (w_store w) (match_id m') of None \<Rightarrow> 0
      | Some x \<Rightarrow> if lobbyType x = k \<and> status x = Waiting then length (players x) else 0) =
     current_players (w_store w) k + (if lt = k then length (players m') else 0)"
    using current_players_save [of m' "w_store w"] l by (simp add: s)
  show ?thesis
  proof (rule conjI)
    show "current_players (w_store w1) lt = Suc (current_players (w_store w) lt)"
      using c k [of lt] by auto
    show "\<forall>lt'. lt' \<noteq> lt \<longrightarrow> current_players (w_store w1) lt' = current_players (w_store w) lt'"
    proof (intro allI impI)
      fix lt' assume "lt' \<noteq> lt"
      then show "current_players (w_store w1) lt' = current_players (w_store w) lt'"
        using c k [of lt'] by (auto split: option.splits)
    qed
  qed
qed

section \<open>Properties of the reads\<close>

text \<open>Paging through \<open>GET /wallet/transactions\<close> with a fixed \<open>limit\<close> and
  the offsets 0, limit, 2 limit, ... returns the user's journal newest first, each row
  once and none skipped; enough pages return all of it.\<close>

theorem tx_pages_cover:
  "concat (map (\<lambda>i. tx_page u k (i * k) l) [0..<n]) = tx_page u (n * k) 0 l \<and>
   (length (filter (\<lambda>t. tx_userId t = u) (txns l)) \<le> n * k \<longrightarrow>
      concat (map (\<lambda>i. tx_page u k (i * k) l) [0..<n]) = rev (filter (\<lambda>t. tx_userId t = u) (txns l)))"
  unfolding tx_pages_concat by (simp add: tx_page_def)

text \<open>The wallet listing reports every row's currency as stored,
  \<open>gems\<close> or \<open>bonus_gems\<close>: its relabelling of \<open>bonus\<close> to \<open>bonusCash\<close> never applies,
  since no code writes the currency \<open>bonus\<close>.\<close>

theorem wallet_currency_labels:
  assumes "wallet_transactions e c fresh qlim qoff db = (Done vs, db')"
  shows "\<forall>v \<in> set vs. txv_currency v \<in> {''gems'', ''bonus_gems''}"
proof -
  have "\<exists>u (db1::user_db) limit offset. vs = map format_tx (tx_page u limit offset (ud_ledger db1))"
    using assms by (auto simp: wallet_transactions_def split: prod.splits sum.splits)
  then obtain u and db1 :: user_db and limit offset where "vs = map format_tx (tx_page u limit offset (ud_ledger db1))"
    by blast
  then show ?thesis
    by (auto simp: format_tx_def currency_name_def split: currency.splits)
qed

text \<open>C22: A match that \<open>submit\<close> completes and settles, and then removes from
  the store, is still found by \<open>GET /matches/:matchId\<close>: read back from its history row it
  is the same match, completed, with the ranked players and their winnings.\<close>

theorem completed_readback:
  assumes "settle cfgs now m w = (m2, w2)" "match_id m \<notin> fst ` set (w_history w)"
  shows "find_match (w2\<lparr>w_store := persist m2 (w_store w2)\<rparr>) (match_id m) =
         Some (m\<lparr>endedAt := Some now,
                 players := rankAndAllocateWinnings (players m) (prizePool m)
                              (cfg_or cfgs (lobbyType m) cfg_payoutMultipliers []),
                 status := Completed, autoCompleteAt := now, payoutAt := None\<rparr>)"
proof -
  note f = settle_facts [OF assms(1)]
  have "repo_get (persist m2 (w_store w2)) (match_id m) = None"
    using f by (simp add: persist_def repo_get_remove)
  moreover have "map_of (w_history w2) (match_id m) =
      Some (history_row (m\<lparr>status := Completed, endedAt := Some now\<rparr>)
              (rankAndAllocateWinnings (players m) (prizePool m) (cfg_or cfgs (lobbyType m) cfg_payoutMultipliers [])))"
    using settle_history [OF assms(1)] assms(2) map_of_history_create
    by (simp add: saveCompletedMatch_def Let_def)
  ultimately show ?thesis
    using hydrate_history_row [of "m\<lparr>status := Completed, endedAt := Some now\<rparr>"]
    by (simp add: find_match_def or_default_def)
qed

text \<open>Before completion the time left that \<open>GET /matches/:matchId/details\<close>
  reports lies between 0 and the match's duration, once the match has been created.\<close>

theorem details_time_bounds:
  assumes "createdAt m \<le> now"
  shows "0 \<le> md_timeRemaining (details_view m u now) \<and>
         md_timeRemaining (details_view m u now) \<le> int (gameDuration m)"
proof -
  have "0 \<le> (int now - int (createdAt m)) div 1000" using assms by simp
  then show ?thesis by (auto simp: details_view_def)
qed

text \<open>The two views disagree on the time a player has left: the match view
  counts down to the player's own deadline, the details view from the creation of the
  match. Bob, who joined Alice's match a minute after it was created, is shown 110 s by
  one and 50 s by the other at 70 s.\<close>

theorem details_timer_divergence:
  "cv_timer (toClientMatch (demo_match\<lparr>players := players demo_match @ [new_player ''bob'' ''Bob'' 60000 180000 True]\<rparr>) ''bob'' 70000) = 110 \<and>
   md_timeRemaining (details_view (demo_match\<lparr>players := players demo_match @ [new_player ''bob'' ''Bob'' 60000 180000 True]\<rparr>) ''bob'' 70000) = 50"
  by (simp add: toClientMatch_def details_view_def demo_match_def new_player_def find_player_def
                player_deadline_def Let_def)

section \<open>Witnesses\<close>

theorem join_lobby_count_witness:
  "current_players (w_store demo_join) ''classic'' = 1 \<and>
   current_players (w_store (start demo_ledger)) ''classic'' = 0"
proof -
  have s: "join demo_cfgs 1000 ''classic'' ''alice'' None (start demo_ledger) =
           (Reply (toClientMatch demo_seat ''alice'' 1000), demo_join)"
    by (simp add: demo_join_def serve_def join_def start_def demo_seat_def listByUser_def listAll_def
        map_filter_def cfg_or_def demo_cfgs_def demo_cfg_def empty_store_def ledger_eval_defs)
  have idle: "find (active_for ''alice'') (listByUser (w_store (start demo_ledger)) ''alice'') = None"
    by (simp add: start_def listByUser_def empty_store_def map_filter_def)
  have fresh: "repo_get (w_store (start demo_ledger)) (new_match_id ''classic'' 1000) = None"
    by (simp add: start_def repo_get_def empty_store_def)
  have z: "current_players (w_store (start demo_ledger)) ''classic'' = 0"
    by (simp add: current_players_def start_def listAll_def empty_store_def)
  show ?thesis using join_lobby_count [OF start_inv idle fresh s] z by simp
qed

theorem tx_pages_cover_witness:
  "length (filter (\<lambda>t. tx_userId t = ''alice'') (txns demo_journal)) = 3 \<and>
   concat (map (\<lambda>i. tx_page ''alice'' 2 (i * 2) demo_journal) [0..<2]) =
     rev (filter (\<lambda>t. tx_userId t = ''alice'') (txns demo_journal))"
proof -
  have l: "length (filter (\<lambda>t. tx_userId t = ''alice'') (txns demo_journal)) = 3"
    by (simp add: demo_journal_def new_txn_def)
  then show ?thesis using conjunct2 [OF tx_pages_cover [of "''alice''" 2 demo_journal 2]] by simp
qed

theorem wallet_currency_labels_witness:
  "\<exists>vs. wallet_transactions demo_env \<lparr>c_user = TokenUser ''uid-a'', c_bodyUserId = None, c_queryUserId = None\<rparr>
          ''x'' Absent Absent (demo_users\<lparr>ud_ledger := demo_journal\<rparr>) =
        (Done vs, demo_users\<lparr>ud_ledger := demo_journal\<rparr>) \<and>
        length vs = 3 \<and> txv_currency (hd vs) \<in> {''gems'', ''bonus_gems''}"
proof -
  let ?db = "demo_users\<lparr>ud_ledger := demo_journal\<rparr>"
  let ?c = "\<lparr>c_user = TokenUser ''uid-a'', c_bodyUserId = None, c_queryUserId = None\<rparr>"
  have nd: "\<not> isDevAuth demo_env" using demo_env_mode by (simp add: isDevAuth_def)
  have g: "getRequestingUser demo_env ?c ''x'' ?db = (Inr ''alice'', ?db)"
    using nd by (simp add: getRequestingUser_def getOrCreateUserByAuthUid_def find_by_authUid_def demo_users_def)
  define vs where "vs = map format_tx (tx_page ''alice'' 50 0 demo_journal)"
  have w: "wallet_transactions demo_env ?c ''x'' Absent Absent ?db = (Done vs, ?db)"
    using g by (simp add: wallet_transactions_def parse_page_def vs_def)
  have "length vs = 3" by (simp add: vs_def tx_page_def demo_journal_def new_txn_def)
  moreover have "hd vs \<in> set vs" using \<open>length vs = 3\<close> by (cases vs) simp_all
  ultimately show ?thesis using wallet_currency_labels [OF w] w by blast
qed

theorem completed_readback_witness:
  "find_match ((snd (settle demo_cfgs 50000 demo_match demo_world))\<lparr>w_store :=
       persist (fst (settle demo_cfgs 50000 demo_match demo_world)) (w_store (snd (settle demo_cfgs 50000 demo_match demo_world)))\<rparr>)
     ''classic-1'' =
   Some (demo_match\<lparr>endedAt := Some 50000,
           players := rankAndAllocateWinnings (players demo_match) 500 [2],
           status := Completed, autoCompleteAt := 50000, payoutAt := None\<rparr>)"
proof -
  have h: "match_id demo_match \<notin> fst ` set (w_history demo_world)" by (simp add: demo_world_def)
  show ?thesis
    using completed_readback [OF prod.collapse [symmetric] h, of demo_cfgs 50000]
    by (simp add: demo_match_def demo_cfgs_def demo_cfg_def cfg_or_def)
qed

theorem details_time_bounds_witness:
  "0 \<le> md_timeRemaining (details_view demo_match ''alice'' 70000) \<and>
   md_timeRemaining (details_view demo_match ''alice'' 70000) \<le> 120"
proof -
  have "createdAt demo_match \<le> 70000" by (simp add: demo_match_def)
  then show ?thesis using details_time_bounds [of demo_match 70000 "''alice''"] by (simp add: demo_match_def)
qed

end
