(* ===== verification/Provision.thy ===== *)
theory Provision
  imports Engine
begin

text \<open>
  The provisioning of waiting matches in src/backend/src/modules/matches.ts:
  \<open>createWaitingMatch\<close> (lines 96-122), which stores an empty waiting match for a lobby
  and points the lobby's waiting pointer at it, and \<open>ensureWaitingMatches\<close> (lines
  124-137), which does so for every catalogue lobby whose pointer is missing or stale.
  The loop runs over the catalogue \<open>LOBBIES\<close>, the list \<open>cat\<close>; \<open>getLobbyConfig\<close> is
  \<open>Lobbies.get_cfg cat\<close>. Both functions are exported but called by no code of the
  repository; they are the only writers of the waiting pointer.
\<close>

section \<open>Operations\<close>

text \<open>The empty waiting match of lines 101-118.\<close>

definition waiting_match :: "lobby_config \<Rightarrow> lobby_type \<Rightarrow> ms \<Rightarrow> internal_match" where
  "waiting_match cfg lt now =
     \<lparr>match_id = new_match_id lt now, lobbyType = lt,
      match_board = generateDiceBoard (cfg_boardSize cfg) now,
      createdAt = now, startedAt = None, endedAt = None,
      entryFee = cfg_entryFee cfg, prizePool = cfg_totalPrizeGems cfg,
      gameDuration = cfg_gameDuration cfg, players = [], status = Waiting,
      autoCompleteAt = now + 60 * 60 * 1000, payoutAt = None\<rparr>"

text \<open>\<open>createWaitingMatch\<close>: \<open>null\<close> for an unknown lobby, otherwise save and point.\<close>

definition createWaitingMatch :: "lobbies \<Rightarrow> ms \<Rightarrow> lobby_type \<Rightarrow> store \<Rightarrow> internal_match option \<times> store" where
  "createWaitingMatch cfgs now lt st =
     (case cfgs lt of
        None \<Rightarrow> (None, st)
      | Some cfg \<Rightarrow>
          (let m = waiting_match cfg lt now
           in (Some m, setWaiting lt (match_id m) (repo_save m st))))"

text \<open>One iteration of the loop of \<open>ensureWaitingMatches\<close> (lines 126-136): a missing
  (or empty) pointer gets a new match; a pointer to a match that is gone or no longer
  waiting is cleared first.\<close>

definition ensure_one :: "lobbies \<Rightarrow> ms \<Rightarrow> lobby_type \<Rightarrow> store \<Rightarrow> store" where
  "ensure_one cfgs now lt st =
     (case getWaiting st lt of
        None \<Rightarrow> snd (createWaitingMatch cfgs now lt st)
      | Some mid \<Rightarrow>
          (if mid = [] then snd (createWaitingMatch cfgs now lt st)
           else case repo_get st mid of
             Some m \<Rightarrow> (if status m = Waiting then st
                        else snd (createWaitingMatch cfgs now lt (clearWaiting lt st)))
           | None \<Rightarrow> snd (createWaitingMatch cfgs now lt (clearWaiting lt st))))"

definition ensureWaitingMatches :: "lobby_config list \<Rightarrow> ms \<Rightarrow> store \<Rightarrow> store" where
  "ensureWaitingMatches cat now st =
     fold (\<lambda>c. ensure_one (get_cfg cat) now (cfg_lobbyType c)) cat st"

text \<open>A lobby is served when its pointer names a stored waiting match.\<close>

definition served :: "store \<Rightarrow> lobby_type \<Rightarrow> bool" where
  "served st lt \<longleftrightarrow>
     (case getWaiting st lt of
        None \<Rightarrow> False
      | Some mid \<Rightarrow> mid \<noteq> [] \<and> (case repo_get st mid of None \<Rightarrow> False | Some m \<Rightarrow> status m = Waiting))"

section \<open>Lemmas\<close>

lemma listAll_setWaiting [simp]: "listAll (setWaiting lt mid st) = listAll st"
  by (simp add: listAll_def setWaiting_def)

lemma index_ok_setWaiting [simp]: "index_ok (setWaiting lt mid st) = index_ok st"
  by (simp add: index_ok_def setWaiting_def)

lemma repo_get_setWaiting [simp]: "repo_get (setWaiting lt mid st) x = repo_get st x"
  by (simp add: repo_get_def setWaiting_def)

lemma repo_get_clearWaiting [simp]: "repo_get (clearWaiting lt st) x = repo_get st x"
  by (simp add: repo_get_def clearWaiting_def)

lemma getWaiting_setWaiting [simp]:
  "getWaiting (setWaiting lt mid st) k = (if k = lt then Some mid else getWaiting st k)"
  by (simp add: getWaiting_def setWaiting_def)

lemma getWaiting_clearWaiting [simp]:
  "getWaiting (clearWaiting lt st) k = (if k = lt then None else getWaiting st k)"
  by (simp add: getWaiting_def clearWaiting_def)

lemma getWaiting_save [simp]: "getWaiting (repo_save m st) k = getWaiting st k"
  by (simp add: getWaiting_def repo_save_def)

lemma new_match_id_nonempty: "new_match_id lt now \<noteq> []"
  by (simp add: new_match_id_def)

lemma get_cfg_member: "c \<in> set cat \<Longrightarrow> get_cfg cat (cfg_lobbyType c) \<noteq> None"
  by (auto simp: get_cfg_def find_None_iff)

lemma waiting_match_idle: "\<not> active_for v (waiting_match cfg lt now)"
  by (simp add: active_for_def find_player_def waiting_match_def)

text \<open>A created match is served, and a lobby that was served stays served.\<close>

lemma create_served:
  "cfgs lt \<noteq> None \<Longrightarrow> served (snd (createWaitingMatch cfgs now lt st)) lt"
  by (auto simp: createWaitingMatch_def Let_def served_def repo_get_save new_match_id_nonempty waiting_match_def)

lemma create_keeps_served:
  "served st k \<Longrightarrow> k \<noteq> lt \<Longrightarrow> served (snd (createWaitingMatch cfgs now lt st)) k"
  by (auto simp: createWaitingMatch_def Let_def served_def repo_get_save waiting_match_def
           split: option.splits)

lemma served_cong:
  "getWaiting st' k = getWaiting st k \<Longrightarrow> repo_get st' = repo_get st \<Longrightarrow> served st' k = served st k"
  by (simp add: served_def split: option.split)

lemma served_clearWaiting: "k \<noteq> lt \<Longrightarrow> served (clearWaiting lt st) k = served st k"
  by (rule served_cong) (simp_all add: fun_eq_iff)

lemma ensure_one_served:
  assumes "cfgs lt \<noteq> None"
  shows "served (ensure_one cfgs now lt st) lt"
proof (cases "served st lt")
  case True
  then show ?thesis by (auto simp: ensure_one_def served_def split: option.splits)
next
  case False
  then have "ensure_one cfgs now lt st = snd (createWaitingMatch cfgs now lt st) \<or>
             ensure_one cfgs now lt st = snd (createWaitingMatch cfgs now lt (clearWaiting lt st))"
    by (auto simp: ensure_one_def served_def split: option.splits)
  then show ?thesis using create_served [of cfgs lt now] assms by auto
qed

lemma ensure_one_keeps_served: "served st k \<Longrightarrow> served (ensure_one cfgs now lt st) k"
proof (cases "k = lt")
  case True
  assume s: "served st k"
  then show ?thesis using True by (auto simp: ensure_one_def served_def split: option.splits)
next
  case False
  assume s: "served st k"
  then show ?thesis using False create_keeps_served served_clearWaiting
    by (auto simp: ensure_one_def split: option.splits)
qed

lemma fold_ensure_served:
  assumes "\<forall>c \<in> set cs. cfgs (cfg_lobbyType c) \<noteq> None"
  shows "\<forall>c \<in> set cs. served (fold (\<lambda>c. ensure_one cfgs now (cfg_lobbyType c)) cs st) (cfg_lobbyType c)"
  using assms
proof (induction cs arbitrary: st)
  case Nil
  then show ?case by simp
next
  case (Cons c cs)
  have keep: "\<And>st k. served st k \<Longrightarrow> served (fold (\<lambda>c. ensure_one cfgs now (cfg_lobbyType c)) cs st) k"
  proof -
    fix st k assume "served st k"
    then show "served (fold (\<lambda>c. ensure_one cfgs now (cfg_lobbyType c)) cs st) k"
      by (induction cs arbitrary: st) (simp_all add: ensure_one_keeps_served)
  qed
  have "served (ensure_one cfgs now (cfg_lobbyType c) st) (cfg_lobbyType c)"
    using Cons.prems by (simp add: ensure_one_served)
  then show ?case using Cons keep by simp
qed

text \<open>The invariant of theory \<open>Engine\<close> survives the pointer updates and the save of an
  empty waiting match.\<close>

lemma engine_inv_setWaiting:
  assumes inv: "engine_inv cfgs w"
  shows "engine_inv cfgs (w\<lparr>w_store := setWaiting lt mid (w_store w)\<rparr>)"
  by (rule engine_inv_cong [OF inv]) (simp_all add: engine_invD(2) [OF inv])

lemma create_inv:
  assumes inv: "engine_inv cfgs w"
  shows "engine_inv cfgs (w\<lparr>w_store := snd (createWaitingMatch cfgs now lt (w_store w))\<rparr>)"
proof (cases "cfgs lt")
  case None
  then show ?thesis using inv by (simp add: createWaitingMatch_def)
next
  case (Some cfg)
  have ok: "match_ok cfgs (w_ledger w) (waiting_match cfg lt now)"
    using Some by (simp add: match_ok_def waiting_match_def)
  have "engine_inv cfgs (w\<lparr>w_store := repo_save (waiting_match cfg lt now) (w_store w)\<rparr>)"
    by (rule engine_inv_save [OF inv ok]) (simp add: waiting_match_idle)
  then show ?thesis
    using engine_inv_setWaiting [of cfgs "w\<lparr>w_store := repo_save (waiting_match cfg lt now) (w_store w)\<rparr>"]
    by (simp add: createWaitingMatch_def Some Let_def)
qed

lemma ensure_one_inv:
  assumes inv: "engine_inv cfgs w"
  shows "engine_inv cfgs (w\<lparr>w_store := ensure_one cfgs now lt (w_store w)\<rparr>)"
proof -
  have c: "engine_inv cfgs (w\<lparr>w_store := snd (createWaitingMatch cfgs now lt (clearWaiting lt (w_store w)))\<rparr>)"
    using create_inv [OF engine_inv_clearWaiting [OF inv, of lt], of now lt] by simp
  show ?thesis
    using inv c create_inv [OF inv, of now lt]
    by (auto simp: ensure_one_def split: option.splits)
qed

lemma fold_ensure_inv:
  "engine_inv cfgs w \<Longrightarrow>
   engine_inv cfgs (w\<lparr>w_store := fold (\<lambda>c. ensure_one cfgs now (cfg_lobbyType c)) cs (w_store w)\<rparr>)"
proof (induction cs arbitrary: w)
  case Nil
  then show ?case by simp
next
  case (Cons c cs)
  then show ?case using Cons.IH [OF ensure_one_inv [OF Cons.prems, of now "cfg_lobbyType c"]] by simp
qed

text \<open>The document under the id a lobby's new match gets in a millisecond: other lobbies
  never touch it; the lobby itself overwrites it with an empty waiting match when its
  pointer is missing, and keeps that match afterwards.\<close>

lemma ensure_one_other:
  assumes "k \<noteq> lt"
  shows "repo_get (ensure_one cfgs now k st) (new_match_id lt now) = repo_get st (new_match_id lt now) \<and>
         getWaiting (ensure_one cfgs now k st) lt = getWaiting st lt"
  using assms
  by (auto simp: ensure_one_def createWaitingMatch_def Let_def repo_get_save waiting_match_def
      new_match_id_inj split: option.splits)

lemma ensure_one_fills:
  assumes "getWaiting st lt = None" "cfgs lt = Some cfg"
  shows "ensure_one cfgs now lt st =
           setWaiting lt (new_match_id lt now) (repo_save (waiting_match cfg lt now) st)"
  using assms by (simp add: ensure_one_def createWaitingMatch_def Let_def waiting_match_def)

lemma ensure_one_keeps:
  assumes "getWaiting st lt = Some (new_match_id lt now)"
    "repo_get st (new_match_id lt now) = Some (waiting_match cfg lt now)"
  shows "ensure_one cfgs now lt st = st"
  using assms by (simp add: ensure_one_def new_match_id_nonempty waiting_match_def)

lemma fold_ensure_keeps:
  assumes "getWaiting st lt = Some (new_match_id lt now)"
    "repo_get st (new_match_id lt now) = Some (waiting_match cfg lt now)"
  shows "getWaiting (fold (\<lambda>c. ensure_one cfgs now (cfg_lobbyType c)) cs st) lt = Some (new_match_id lt now) \<and>
         repo_get (fold (\<lambda>c. ensure_one cfgs now (cfg_lobbyType c)) cs st) (new_match_id lt now) =
           Some (waiting_match cfg lt now)"
  using assms
proof (induction cs arbitrary: st)
  case Nil
  then show ?case by simp
next
  case (Cons c cs)
  have "getWaiting (ensure_one cfgs now (cfg_lobbyType c) st) lt = Some (new_match_id lt now) \<and>
        repo_get (ensure_one cfgs now (cfg_lobbyType c) st) (new_match_id lt now) = Some (waiting_match cfg lt now)"
    using Cons.prems ensure_one_keeps [of st lt now cfg cfgs] ensure_one_other [of "cfg_lobbyType c" lt cfgs now st]
    by (cases "cfg_lobbyType c = lt") simp_all
  then show ?case using Cons.IH by simp
qed

lemma fold_ensure_overwrites:
  assumes "get_cfg cat lt = Some cfg"
    and "(getWaiting st lt = None \<and> repo_get st (new_match_id lt now) = Some m) \<or>
         (getWaiting st lt = Some (new_match_id lt now) \<and>
          repo_get st (new_match_id lt now) = Some (waiting_match cfg lt now))"
  shows "(getWaiting (fold (\<lambda>c. ensure_one (get_cfg cat) now (cfg_lobbyType c)) cs st) lt = None \<and>
          repo_get (fold (\<lambda>c. ensure_one (get_cfg cat) now (cfg_lobbyType c)) cs st) (new_match_id lt now) = Some m \<and>
          lt \<notin> cfg_lobbyType ` set cs) \<or>
         (getWaiting (fold (\<lambda>c. ensure_one (get_cfg cat) now (cfg_lobbyType c)) cs st) lt = Some (new_match_id lt now) \<and>
          repo_get (fold (\<lambda>c. ensure_one (get_cfg cat) now (cfg_lobbyType c)) cs st) (new_match_id lt now) =
            Some (waiting_match cfg lt now))"
  using assms(2)
proof (induction cs arbitrary: st)
  case Nil
  then show ?case by auto
next
  case (Cons c cs)
  define st' where "st' = ensure_one (get_cfg cat) now (cfg_lobbyType c) st"
  have "(getWaiting st' lt = None \<and> repo_get st' (new_match_id lt now) = Some m \<and> cfg_lobbyType c \<noteq> lt) \<or>
        (getWaiting st' lt = Some (new_match_id lt now) \<and>
         repo_get st' (new_match_id lt now) = Some (waiting_match cfg lt now))"
  proof (cases "cfg_lobbyType c = lt")
    case True
    show ?thesis
      using Cons.prems
    proof
      assume "getWaiting st lt = None \<and> repo_get st (new_match_id lt now) = Some m"
      then show ?thesis
        using ensure_one_fills [where st = st and cfgs = "get_cfg cat" and now = now, OF _ assms(1)] True
        by (simp add: st'_def repo_get_save waiting_match_def)
    next
      assume "getWaiting st lt = Some (new_match_id lt now) \<and>
              repo_get st (new_match_id lt now) = Some (waiting_match cfg lt now)"
      then show ?thesis using ensure_one_keeps True by (simp add: st'_def)
    qed
  next
    case False
    then show ?thesis using Cons.prems ensure_one_other [OF False] by (simp add: st'_def)
  qed
  then show ?case
  proof
    assume "getWaiting st' lt = None \<and> repo_get st' (new_match_id lt now) = Some m \<and> cfg_lobbyType c \<noteq> lt"
    then show ?case using Cons.IH [of st'] by (auto simp: st'_def)
  next
    assume "getWaiting st' lt = Some (new_match_id lt now) \<and>
            repo_get st' (new_match_id lt now) = Some (waiting_match cfg lt now)"
    then show ?case using fold_ensure_keeps [of st' lt now cfg "get_cfg cat" cs] by (simp add: st'_def)
  qed
qed

lemma join_fresh_seat:
  assumes pre: "lt \<noteq> []" "u \<noteq> []" "nameOpt \<noteq> Some []"
    and idle: "find (active_for u) (listByUser (w_store w) u) = None"
    and none: "find (joinable cfgs lt u) (listAll (w_store w)) = None"
    and c: "cfgs lt = Some cfg" and ok: "\<exists>v. fst (join cfgs now lt u nameOpt w) = Reply v"
  shows "has_key u ''entryFee'' (new_match_id lt now) (w_ledger (snd (join cfgs now lt u nameOpt w))) \<and>
         getWaiting (w_store (snd (join cfgs now lt u nameOpt w))) = getWaiting (w_store w) \<and>
         (\<exists>m. repo_get (w_store (snd (join cfgs now lt u nameOpt w))) (new_match_id lt now) = Some m \<and>
              find_player m u \<noteq> None)"
proof -
  define pn where "pn = (case nameOpt of None \<Rightarrow> ''Player'' | Some n \<Rightarrow> n)"
  define m where "m = fresh_match cfg lt u pn now"
  obtain paid l' where d: "tryDebitUser u (cfg_entryFee cfg) (Some (match_id m)) (Some lt) (w_ledger w) = (paid, l')"
    by (cases "tryDebitUser u (cfg_entryFee cfg) (Some (match_id m)) (Some lt) (w_ledger w)")
  define m' where "m' = m\<lparr>players := map (\<lambda>p. p\<lparr>paidEntry := True\<rparr>) (players m)\<rparr>"
  have j: "join cfgs now lt u nameOpt w =
            (if paid then (Reply (toClientMatch m' u now), w\<lparr>w_store := repo_save m' (w_store w), w_ledger := l'\<rparr>)
             else (Failure 402 ''insufficient funds'', w\<lparr>w_ledger := l'\<rparr>))"
    using pre idle none c d by (simp add: join_def Let_def m'_def m_def pn_def)
  then have paid using ok by (auto split: if_splits)
  have id: "match_id m' = new_match_id lt now" by (simp add: m'_def m_def fresh_match_def)
  have "has_key u ''entryFee'' (match_id m) l'" using tryDebitUser_True_key d \<open>paid\<close> by simp
  moreover have "find_player m' u \<noteq> None"
    by (simp add: m'_def m_def fresh_match_def find_player_def new_player_def)
  moreover have "match_id m = new_match_id lt now" by (simp add: m_def fresh_match_def)
  ultimately show ?thesis using j \<open>paid\<close> id by (simp add: repo_get_save fun_eq_iff)
qed

section \<open>Properties\<close>

text \<open>C20: \<open>ensureWaitingMatches\<close> keeps the engine invariant, and afterwards
  every lobby of the catalogue has a waiting pointer to a stored waiting match.\<close>

theorem ensureWaitingMatches_serves:
  assumes "engine_inv (get_cfg cat) w"
  shows "engine_inv (get_cfg cat) (w\<lparr>w_store := ensureWaitingMatches cat now (w_store w)\<rparr>) \<and>
         (\<forall>c \<in> set cat. served (ensureWaitingMatches cat now (w_store w)) (cfg_lobbyType c))"
proof
  show "engine_inv (get_cfg cat) (w\<lparr>w_store := ensureWaitingMatches cat now (w_store w)\<rparr>)"
    unfolding ensureWaitingMatches_def by (rule fold_ensure_inv [OF assms])
  have "\<forall>c \<in> set cat. get_cfg cat (cfg_lobbyType c) \<noteq> None" using get_cfg_member by blast
  then show "\<forall>c \<in> set cat. served (ensureWaitingMatches cat now (w_store w)) (cfg_lobbyType c)"
    unfolding ensureWaitingMatches_def by (rule fold_ensure_served)
qed

text \<open>C30: \<open>join\<close> names a match it opens \<open>lobbyType-Date.now()\<close> in base 36 and never
  sets the waiting pointer, and \<open>createWaitingMatch\<close> names its match the same way
  (lines 101-118). So whenever a join opens a match for a catalogue lobby whose pointer is
  unset, a run of \<open>ensureWaitingMatches\<close> in the same millisecond saves an empty waiting
  match over it: the user's entry fee stays debited, and the seat is gone.\<close>

theorem ensure_overwrites_seat:
  assumes cat: "c \<in> set cat" "cfg_lobbyType c = lt"
    and pre: "lt \<noteq> []" "u \<noteq> []" "nameOpt \<noteq> Some []"
    and ptr: "getWaiting (w_store w) lt = None"
    and idle: "find (active_for u) (listByUser (w_store w) u) = None"
    and none: "find (joinable (get_cfg cat) lt u) (listAll (w_store w)) = None"
    and ok: "\<exists>v. fst (join (get_cfg cat) now lt u nameOpt w) = Reply v"
  shows "has_key u ''entryFee'' (new_match_id lt now) (w_ledger (snd (join (get_cfg cat) now lt u nameOpt w))) \<and>
         (\<exists>m. repo_get (w_store (snd (join (get_cfg cat) now lt u nameOpt w))) (new_match_id lt now) = Some m \<and>
              find_player m u \<noteq> None) \<and>
         (\<exists>m'. repo_get (ensureWaitingMatches cat now (w_store (snd (join (get_cfg cat) now lt u nameOpt w))))
                 (new_match_id lt now) = Some m' \<and> find_player m' u = None)"
proof -
  obtain cfg where cf: "get_cfg cat lt = Some cfg" using get_cfg_member [OF cat(1)] cat(2) by auto
  note js = join_fresh_seat [OF pre idle none cf ok]
  then obtain m where m: "repo_get (w_store (snd (join (get_cfg cat) now lt u nameOpt w))) (new_match_id lt now) = Some m"
    by blast
  have "lt \<in> cfg_lobbyType ` set cat" using cat by blast
  then have "repo_get (ensureWaitingMatches cat now (w_store (snd (join (get_cfg cat) now lt u nameOpt w))))
               (new_match_id lt now) = Some (waiting_match cfg lt now)"
    using fold_ensure_overwrites [OF cf, where st = "w_store (snd (join (get_cfg cat) now lt u nameOpt w))" and m = m and cs = cat and now = now] js ptr m
    unfolding ensureWaitingMatches_def by auto
  moreover have "find_player (waiting_match cfg lt now) u = None"
    by (simp add: find_player_def waiting_match_def)
  ultimately show ?thesis using js by blast
qed


section \<open>Witnesses\<close>

theorem ensureWaitingMatches_serves_witness:
  "served (ensureWaitingMatches [demo_cfg] 0 (w_store (start demo_ledger))) ''classic''"
proof -
  have "\<forall>c \<in> set [demo_cfg]. served (ensureWaitingMatches [demo_cfg] 0 (w_store (start demo_ledger))) (cfg_lobbyType c)"
    using ensureWaitingMatches_serves [OF start_inv, of "[demo_cfg]" 0] by blast
  then show ?thesis by (simp add: demo_cfg_def)
qed

theorem ensure_overwrites_seat_witness:
  "demo_cfg \<in> set [demo_cfg] \<and> cfg_lobbyType demo_cfg = ''classic'' \<and> ''classic'' \<noteq> [] \<and> ''alice'' \<noteq> [] \<and>
   (None :: string option) \<noteq> Some [] \<and> getWaiting (w_store (start demo_ledger)) ''classic'' = None \<and>
   find (active_for ''alice'') (listByUser (w_store (start demo_ledger)) ''alice'') = None \<and>
   find (joinable (get_cfg [demo_cfg]) ''classic'' ''alice'') (listAll (w_store (start demo_ledger))) = None \<and>
   (\<exists>v. fst (join (get_cfg [demo_cfg]) 1000 ''classic'' ''alice'' None (start demo_ledger)) = Reply v) \<and>
   (\<exists>m'. repo_get (ensureWaitingMatches [demo_cfg] 1000
            (w_store (snd (join (get_cfg [demo_cfg]) 1000 ''classic'' ''alice'' None (start demo_ledger)))))
          (new_match_id ''classic'' 1000) = Some m' \<and> find_player m' ''alice'' = None)"
proof -
  have c: "demo_cfg \<in> set [demo_cfg]" "cfg_lobbyType demo_cfg = ''classic''" by (simp_all add: demo_cfg_def)
  have s: "getWaiting (w_store (start demo_ledger)) ''classic'' = None"
    "find (active_for ''alice'') (listByUser (w_store (start demo_ledger)) ''alice'') = None"
    "find (joinable (get_cfg [demo_cfg]) ''classic'' ''alice'') (listAll (w_store (start demo_ledger))) = None"
    by (simp_all add: start_def getWaiting_def empty_store_def listByUser_def listAll_def)
  have r: "\<exists>v. fst (join (get_cfg [demo_cfg]) 1000 ''classic'' ''alice'' None (start demo_ledger)) = Reply v"
    by (simp add: join_def start_def listByUser_def listAll_def map_filter_def empty_store_def get_cfg_def
        demo_cfg_def ledger_eval_defs)
  have n: "''classic'' \<noteq> []" "''alice'' \<noteq> []" "(None :: string option) \<noteq> Some []" by simp_all
  from ensure_overwrites_seat [OF c n s r] c n s r show ?thesis by blast
qed

end
