(* ===== verification/DevTools.thy ===== *)
theory DevTools
  imports Queries
begin

text \<open>
  The developer endpoints of src/backend/src/modules/matches.ts, which are served only
  in dev mode: \<open>POST /matches/dev/simulate\<close> (lines 726-819) stores a completed match of
  simulated players in the history and credits their prizes, and
  \<open>POST /matches/dev/verify\<close> (lines 822-953) reconciles completed matches: it
  recomputes the allocation from the recorded players and compares, per user, the
  expected winnings, the winnings recorded in the history row and the prizes credited in
  the journal, and the totals with the prize pool.

  The random scores \<open>Math.floor(Math.random() * 100)\<close> of simulated players without a
  given score are the parameter \<open>rnd\<close>, one number per player. JavaScript \<open>Map\<close>s are
  association lists filled with \<open>AList.update\<close> (theory \<open>Prelude\<close>).
\<close>

section \<open>\<open>POST /matches/dev/simulate\<close>\<close>

text \<open>The simulated player \<open>i\<close> (0-based), lines 746-759.\<close>

definition sim_player :: "ms \<Rightarrow> int list option \<Rightarrow> (nat \<Rightarrow> int) \<Rightarrow> nat \<Rightarrow> player" where
  "sim_player now scores rnd i =
     \<lparr>player_id = ''sim-user-'' @ show_nat (Suc i), name = ''Sim '' @ show_nat (Suc i), words = [],
      score = (case scores of Some ss \<Rightarrow> if i < length ss then ss ! i else rnd i | None \<Rightarrow> rnd i),
      wordScore = (case scores of Some ss \<Rightarrow> if i < length ss then Some (ss ! i) else None | None \<Rightarrow> None),
      timeBonus = Some 0, joinedAt = now, deadlineAt = Some now, paidEntry = True,
      submittedAt = Some now, rank = None, winnings = None\<rparr>"

text \<open>The completed match of lines 761-774.\<close>

definition sim_match :: "lobby_config \<Rightarrow> lobby_type \<Rightarrow> ms \<Rightarrow> player list \<Rightarrow> internal_match" where
  "sim_match cfg lt now ps =
     \<lparr>match_id = lt @ ''-sim-'' @ to_base36 now, lobbyType = lt,
      match_board = generateDiceBoard (cfg_boardSize cfg) now,
      createdAt = now, startedAt = Some now, endedAt = Some now,
      entryFee = cfg_entryFee cfg, prizePool = cfg_totalPrizeGems cfg,
      gameDuration = cfg_gameDuration cfg, players = ps, status = Completed,
      autoCompleteAt = now, payoutAt = None\<rparr>"

text \<open>\<open>prisma.user.upsert\<close> with an empty update, lines 783-795: an account with no
  balance for a user that has none.\<close>

definition upsert_account :: "user_id \<Rightarrow> ledger \<Rightarrow> ledger" where
  "upsert_account u l =
     (case accounts l u of
        Some _ \<Rightarrow> l
      | None \<Rightarrow> l\<lparr>accounts := (accounts l)(u \<mapsto> \<lparr>gemBalance = 0, bonusGems = 0\<rparr>)\<rparr>)"

text \<open>The handler: the schema (\<open>numPlayers\<close> from 1 to 10, scores nonnegative), the lobby,
  the history row, then the accounts and the prizes of the allocation, as in
  \<open>settle\<close>.\<close>

definition dev_simulate ::
  "env \<Rightarrow> lobbies \<Rightarrow> ms \<Rightarrow> (nat \<Rightarrow> int) \<Rightarrow> lobby_type \<Rightarrow> nat \<Rightarrow> int list option \<Rightarrow> world \<Rightarrow>
   match_id outcome \<times> world" where
  "dev_simulate e cfgs now rnd lt n scores w =
     (if \<not> isDevAuth e then (Refused 403 ''forbidden'', w)
      else if n < 1 \<or> 10 < n \<or> (case scores of None \<Rightarrow> False | Some ss \<Rightarrow> \<not> list_all (\<lambda>s. 0 \<le> s) ss)
      then (Refused 400 ''Invalid request'', w)
      else case cfgs lt of
        None \<Rightarrow> (Refused 400 ''invalid lobbyType'', w)
      | Some cfg \<Rightarrow>
          (let ps = map (sim_player now scores rnd) [0..<n];
               m = sim_match cfg lt now ps;
               h = saveCompletedMatch cfgs m (w_history w);
               l1 = fold upsert_account (map player_id ps) (w_ledger w);
               winners = rankAndAllocateWinnings (players m) (prizePool m) (cfg_payoutMultipliers cfg)
           in (Done (match_id m), w\<lparr>w_history := h, w_ledger := credit_all m winners l1\<rparr>)))"

section \<open>\<open>POST /matches/dev/verify\<close>\<close>

text \<open>A recorded player as the verifier rebuilds it, lines 849-856.\<close>

definition verify_player :: "player \<Rightarrow> player" where
  "verify_player p =
     \<lparr>player_id = player_id p, name = name p, words = words p, score = score p,
      wordScore = None, timeBonus = None, joinedAt = joinedAt p, deadlineAt = None,
      paidEntry = paidEntry p, submittedAt = None, rank = None, winnings = None\<rparr>"

text \<open>\<open>new Map()\<close> filled with \<open>set\<close>, and \<open>m.get(k) || 0\<close>.\<close>

definition js_map :: "('k \<times> 'v) list \<Rightarrow> ('k \<times> 'v) list" where
  "js_map kvs = fold (\<lambda>(k, v) acc. AList.update k v acc) kvs []"

definition js_get :: "('k \<times> int) list \<Rightarrow> 'k \<Rightarrow> int" where
  "js_get m k = or_default (map_of m k) 0"

text \<open>The credited map of lines 876-879: the prize rows' amounts summed per user.\<close>

definition credited_map :: "txn list \<Rightarrow> (user_id \<times> int) list" where
  "credited_map tx =
     fold (\<lambda>t acc. AList.update (tx_userId t) (js_get acc (tx_userId t) + tx_amount t) acc) tx []"

record verify_report =
  vr_matchId :: match_id
  vr_ok :: bool
  vr_totalExpected :: int
  vr_totalCredited :: int
  vr_players :: "(user_id \<times> int \<times> int \<times> int) list"

text \<open>The report on one history row, lines 846-946.\<close>

definition verify_match :: "lobbies \<Rightarrow> ledger \<Rightarrow> match_id \<times> completed_row \<Rightarrow> verify_report" where
  "verify_match cfgs l r =
     (let (mid, cm) = r;
          ps = map verify_player (cm_players cm);
          expected = rankAndAllocateWinnings ps (cm_prizePool cm)
                       (cfg_or cfgs (cm_lobbyType cm) cfg_payoutMultipliers []);
          expectedMap = js_map (map (\<lambda>p. (player_id p, winnings_of p)) expected);
          recordedMap = js_map (map (\<lambda>p. (player_id p, winnings_of p)) (cm_players cm));
          tx = filter (\<lambda>t. tx_matchId t = Some mid \<and> tx_type t = ''prize'') (txns l);
          creditedMap = credited_map tx;
          users = remdups (map player_id ps @ map fst expectedMap @ map fst recordedMap @ map tx_userId tx);
          rows = map (\<lambda>u. (u, js_get expectedMap u, js_get recordedMap u, js_get creditedMap u)) users;
          totalExpected = sum_list (map snd expectedMap);
          totalCredited = sum_list (map tx_amount tx)
      in \<lparr>vr_matchId = mid,
          vr_ok = (list_all (\<lambda>(u, e, rc, c). e = rc \<and> rc = c) rows \<and>
                   totalExpected = cm_prizePool cm \<and> totalCredited = totalExpected),
          vr_totalExpected = totalExpected, vr_totalCredited = totalCredited, vr_players = rows\<rparr>)"

text \<open>The handler, lines 822-845 and 933-948: one match by id, or the most recently
  ended ones (\<open>limit\<close> from 1 to 200).\<close>

definition dev_verify ::
  "env \<Rightarrow> lobbies \<Rightarrow> match_id option \<Rightarrow> nat \<Rightarrow> world \<Rightarrow> (bool \<times> verify_report list) outcome" where
  "dev_verify e cfgs midOpt limit w =
     (if \<not> isDevAuth e then Refused 403 ''forbidden''
      else if limit < 1 \<or> 200 < limit then Refused 400 ''Invalid request''
      else
        (let rows = (case midOpt of
                       Some mid \<Rightarrow> if mid = [] then take limit (sort_key (\<lambda>(i, r). - int (or_default (cm_endedAt r) 0)) (w_history w))
                                  else filter (\<lambda>(i, r). i = mid) (w_history w)
                     | None \<Rightarrow> take limit (sort_key (\<lambda>(i, r). - int (or_default (cm_endedAt r) 0)) (w_history w)));
             reports = map (verify_match cfgs (w_ledger w)) rows
         in Done (list_all vr_ok reports, reports)))"

section \<open>Re-running the allocator\<close>

text \<open>A rebuild of a player that keeps its id and score and ignores its rank and winnings
  commutes with the allocator: the allocator only writes the rank and the winnings.\<close>

definition rebuild_ok :: "(player \<Rightarrow> player) \<Rightarrow> bool" where
  "rebuild_ok f \<longleftrightarrow>
     (\<forall>p. score (f p) = score p \<and> player_id (f p) = player_id p) \<and>
     (\<forall>p r v. f (p\<lparr>rank := r, winnings := v\<rparr>) = f p)"

section \<open>Lemmas on the allocator\<close>

lemma rebuild_okD:
  "rebuild_ok f \<Longrightarrow> score (f p) = score p"
  "rebuild_ok f \<Longrightarrow> player_id (f p) = player_id p"
  "rebuild_ok f \<Longrightarrow> f (p\<lparr>rank := r, winnings := v\<rparr>) = f p"
  by (simp_all add: rebuild_ok_def)

lemma deal_rebuild:
  "rebuild_ok f \<Longrightarrow>
   deal r per rem (map f xs) = map (\<lambda>q. (f q)\<lparr>rank := rank q, winnings := winnings q\<rparr>) (deal r per rem xs)"
  by (induction xs arbitrary: rem) (simp_all add: Let_def rebuild_okD)

lemma pay_band_rebuild:
  "rebuild_ok f \<Longrightarrow>
   pay_band s tot (map f xs) = map (\<lambda>q. (f q)\<lparr>rank := rank q, winnings := winnings q\<rparr>) (pay_band s tot xs)"
  by (simp add: pay_band_def Let_def deal_rebuild rebuild_okD)

lemma allocate_rebuild:
  assumes f: "rebuild_ok f"
  shows "allocate_bands n b i (map f xs) =
         map (\<lambda>q. (f q)\<lparr>rank := rank q, winnings := winnings q\<rparr>) (allocate_bands n b i xs)"
proof (induction n b i xs rule: allocate_bands.induct)
  case (1 n base i)
  then show ?case by simp
next
  case (2 n base i p ps)
  have sc: "(\<lambda>q. score q = score (f p)) \<circ> f = (\<lambda>q. score q = score p)"
    using f by (simp add: comp_def rebuild_okD)
  have "takeWhile (\<lambda>q. score q = score (f p)) (map f ps) = map f (takeWhile (\<lambda>q. score q = score p) ps)"
    by (simp add: takeWhile_map sc)
  moreover have "dropWhile (\<lambda>q. score q = score (f p)) (map f ps) = map f (dropWhile (\<lambda>q. score q = score p) ps)"
    by (simp add: dropWhile_map sc)
  ultimately show ?case
    using 2 pay_band_rebuild [OF f, of "Suc i" _ "p # takeWhile (\<lambda>q. score q = score p) ps"]
    by (simp add: Let_def)
qed

lemma rebuild_ok_strip: "rebuild_ok strip"
  by (simp add: rebuild_ok_def strip_def)

lemma strip_restore [simp]: "(strip q)\<lparr>rank := rank q, winnings := winnings q\<rparr> = q"
  by (simp add: strip_def)

lemma allocate_strip: "allocate_bands n b i (map strip xs) = allocate_bands n b i xs"
  using allocate_rebuild [OF rebuild_ok_strip, of n b i xs] by simp

text \<open>Allocating an allocation again changes nothing.\<close>

lemma allocate_idem: "allocate_bands n b i (allocate_bands n b i xs) = allocate_bands n b i xs"
  by (metis allocate_strip strip_allocate_bands)

lemma map_score_allocate: "map score (allocate_bands n b i xs) = map score xs"
proof -
  have "map score (allocate_bands n b i xs) = map score (map strip (allocate_bands n b i xs))"
    by (simp add: strip_def comp_def)
  also have "\<dots> = map score xs" by (simp add: strip_allocate_bands strip_def comp_def)
  finally show ?thesis .
qed

lemma rankAndAllocateWinnings_pair:
  assumes "length qs = length ps"
  obtains n b where "rankAndAllocateWinnings ps pool ms = allocate_bands n b 0 (score_order ps)"
    "rankAndAllocateWinnings qs pool ms = allocate_bands n b 0 (score_order qs)"
proof -
  have l: "length (score_order qs) = length (score_order ps)" using assms by (simp add: score_order_def)
  let ?n = "min (length (score_order ps)) (length ms)"
  let ?b = "base_rank_amounts pool (map (max 0) (take ?n ms))"
  show ?thesis
  proof (cases "pool \<le> 0 \<or> ?n = 0")
    case True
    then have "rankAndAllocateWinnings ps pool ms = allocate_bands 0 [] 0 (score_order ps)"
      "rankAndAllocateWinnings qs pool ms = allocate_bands 0 [] 0 (score_order qs)"
      using l unfolding rankAndAllocateWinnings_def Let_def
      by (simp_all add: rank_bands_allocate_bands)
    then show ?thesis by (rule that)
  next
    case False
    then have "rankAndAllocateWinnings ps pool ms = allocate_bands ?n ?b 0 (score_order ps)"
      "rankAndAllocateWinnings qs pool ms = allocate_bands ?n ?b 0 (score_order qs)"
      using l unfolding rankAndAllocateWinnings_def Let_def by simp_all
    then show ?thesis by (rule that)
  qed
qed

lemma score_order_rebuilt:
  assumes f: "rebuild_ok f"
  shows "score_order (map f (rankAndAllocateWinnings ps pool ms)) = map f (rankAndAllocateWinnings ps pool ms)"
proof -
  obtain n b where R: "rankAndAllocateWinnings ps pool ms = allocate_bands n b 0 (score_order ps)"
    by (rule rankAndAllocateWinnings_obtain)
  have "map (\<lambda>p. - score p) (map f (rankAndAllocateWinnings ps pool ms)) =
        map (\<lambda>p. - score p) (score_order ps)"
    using arg_cong [OF map_score_allocate [of n b 0 "score_order ps"], of "map uminus"]
    by (simp add: R comp_def rebuild_okD [OF f])
  moreover have "sorted (map (\<lambda>p. - score p) (score_order ps))"
    by (simp add: score_order_def sorted_sort_key)
  ultimately show ?thesis by (simp add: score_order_def sort_key_id_if_sorted)
qed

text \<open>The winnings of a re-run on rebuilt players are the recorded ones, player by
  player and in order.\<close>

lemma reallocate:
  assumes f: "rebuild_ok f"
  shows "map (\<lambda>p. (player_id p, winnings_of p)) (rankAndAllocateWinnings (map f (rankAndAllocateWinnings ps pool ms)) pool ms) =
         map (\<lambda>p. (player_id p, winnings_of p)) (rankAndAllocateWinnings ps pool ms)"
proof -
  let ?R = "rankAndAllocateWinnings ps pool ms"
  have len: "length (map f ?R) = length ps" by (metis length_map ranked_ids size_mset)
  obtain n b where A: "?R = allocate_bands n b 0 (score_order ps)"
    and B: "rankAndAllocateWinnings (map f ?R) pool ms = allocate_bands n b 0 (score_order (map f ?R))"
    using rankAndAllocateWinnings_pair [OF len] by metis
  have "rankAndAllocateWinnings (map f ?R) pool ms =
        map (\<lambda>q. (f q)\<lparr>rank := rank q, winnings := winnings q\<rparr>) (allocate_bands n b 0 ?R)"
    by (simp only: B score_order_rebuilt [OF f] allocate_rebuild [OF f])
  also have "allocate_bands n b 0 ?R = ?R" by (subst (2) A, subst A, rule allocate_idem)
  finally show ?thesis by (simp add: comp_def winnings_of_def rebuild_okD [OF f])
qed

lemma rebuild_ok_verify_player: "rebuild_ok verify_player"
  by (simp add: rebuild_ok_def verify_player_def)

section \<open>Lemmas on the simulation and the reconciliation\<close>

lemma show_nat_inj: "show_nat a = show_nat b \<Longrightarrow> a = b"
  by (metis show_nat_roundtrip)

lemma sim_ids_distinct: "distinct (map player_id (map (sim_player now scores rnd) [0..<n]))"
proof -
  have "inj_on (\<lambda>i. ''sim-user-'' @ show_nat (Suc i)) {0..<n}"
    by (rule inj_onI) (auto dest: show_nat_inj)
  then show ?thesis by (simp add: sim_player_def comp_def distinct_map)
qed

lemma upsert_facts:
  "txns (fold upsert_account us l) = txns l \<and>
   (\<forall>u. accounts l u \<noteq> None \<longrightarrow> accounts (fold upsert_account us l) u \<noteq> None) \<and>
   (\<forall>u \<in> set us. accounts (fold upsert_account us l) u \<noteq> None)"
proof (induction us arbitrary: l)
  case Nil
  then show ?case by simp
next
  case (Cons u us)
  have "txns (upsert_account u l) = txns l \<and> accounts (upsert_account u l) u \<noteq> None \<and>
        (\<forall>v. accounts l v \<noteq> None \<longrightarrow> accounts (upsert_account u l) v \<noteq> None)"
    by (simp add: upsert_account_def split: option.splits)
  then show ?case using Cons.IH [of "upsert_account u l"] by auto
qed

lemma js_map_distinct: "distinct (map fst kvs) \<Longrightarrow> js_map kvs = kvs"
  using fold_update_fresh [of kvs "[]"] by (simp add: js_map_def)

lemma credited_map_fresh:
  "distinct (map tx_userId tx) \<Longrightarrow> set (map tx_userId tx) \<inter> fst ` set acc = {} \<Longrightarrow>
   fold (\<lambda>t acc. AList.update (tx_userId t) (js_get acc (tx_userId t) + tx_amount t) acc) tx acc =
   acc @ map (\<lambda>t. (tx_userId t, tx_amount t)) tx"
proof (induction tx arbitrary: acc)
  case Nil
  then show ?case by simp
next
  case (Cons t tx)
  have fresh: "tx_userId t \<notin> fst ` set acc" using Cons.prems(2) by auto
  then have "map_of acc (tx_userId t) = None" by (simp add: map_of_eq_None_iff)
  then have "js_get acc (tx_userId t) = 0" by (simp add: js_get_def)
  then have "AList.update (tx_userId t) (js_get acc (tx_userId t) + tx_amount t) acc =
             acc @ [(tx_userId t, tx_amount t)]"
    using update_fresh [OF fresh] by simp
  moreover have "set (map tx_userId tx) \<inter> fst ` set (acc @ [(tx_userId t, tx_amount t)]) = {}"
    using Cons.prems by auto
  ultimately show ?case using Cons.IH [of "acc @ [(tx_userId t, tx_amount t)]"] Cons.prems(1) by simp
qed

lemma credited_map_distinct:
  "distinct (map tx_userId tx) \<Longrightarrow> credited_map tx = map (\<lambda>t. (tx_userId t, tx_amount t)) tx"
  using credited_map_fresh [of tx "[]"] by (simp add: credited_map_def)

lemma js_get_filter_pos:
  "distinct (map fst kvs) \<Longrightarrow> \<forall>kv \<in> set kvs. 0 \<le> snd kv \<Longrightarrow>
   js_get (filter (\<lambda>kv. 0 < snd kv) kvs) u = js_get kvs u"
proof (induction kvs)
  case Nil
  then show ?case by simp
next
  case (Cons kv kvs)
  show ?case
  proof (cases "fst kv = u")
    case True
    then have "map_of (filter (\<lambda>kv. 0 < snd kv) kvs) u = None"
      using Cons.prems(1) by (auto simp: map_of_eq_None_iff)
    then show ?thesis using True Cons.prems(2) by (cases kv) (auto simp: js_get_def)
  next
    case False
    then show ?thesis using Cons by (cases kv) (auto simp: js_get_def)
  qed
qed

lemma sum_filter_pos:
  "\<forall>kv \<in> set kvs. 0 \<le> snd kv \<Longrightarrow>
   sum_list (map snd (filter (\<lambda>kv. 0 < snd kv) kvs)) = sum_list (map snd kvs :: int list)"
  by (induction kvs) auto

text \<open>The reconciliation of a history row passes when the row holds the allocation of its
  players and the journal holds exactly its positive prizes, with distinct winners and the
  whole pool paid.\<close>

lemma verify_match_ok:
  assumes R: "cm_players cm = R"
    and alloc: "R = rankAndAllocateWinnings ps (cm_prizePool cm) (cfg_or cfgs (cm_lobbyType cm) cfg_payoutMultipliers [])"
    and dR: "distinct (map player_id R)"
    and tx: "map (\<lambda>t. (tx_userId t, tx_amount t)) (filter (\<lambda>t. tx_matchId t = Some mid \<and> tx_type t = ''prize'') (txns l)) =
             filter (\<lambda>kv. 0 < snd kv) (map (\<lambda>p. (player_id p, winnings_of p)) R)"
    and tot: "sum_list (map winnings_of R) = cm_prizePool cm"
  shows "vr_ok (verify_match cfgs l (mid, cm))"
proof -
  let ?ms = "cfg_or cfgs (cm_lobbyType cm) cfg_payoutMultipliers []"
  let ?ER = "map (\<lambda>p. (player_id p, winnings_of p)) R"
  let ?tx = "filter (\<lambda>t. tx_matchId t = Some mid \<and> tx_type t = ''prize'') (txns l)"
  have dER: "distinct (map fst ?ER)" using dR by (simp add: comp_def)
  have exp: "map (\<lambda>p. (player_id p, winnings_of p)) (rankAndAllocateWinnings (map verify_player R) (cm_prizePool cm) ?ms) = ?ER"
    using reallocate [OF rebuild_ok_verify_player, of ps "cm_prizePool cm" ?ms] alloc by simp
  have nn: "\<forall>kv \<in> set ?ER. 0 \<le> snd kv"
    using rankAndAllocateWinnings_nonneg alloc by auto
  have "map tx_userId ?tx = map fst (filter (\<lambda>kv. 0 < snd kv) ?ER)"
    using arg_cong [OF tx, of "map fst"] by (simp add: comp_def)
  then have dtx: "distinct (map tx_userId ?tx)" using dER by (simp add: distinct_map_filter)
  have C: "credited_map ?tx = filter (\<lambda>kv. 0 < snd kv) ?ER"
    using credited_map_distinct [OF dtx] tx by simp
  have "sum_list (map tx_amount ?tx) = sum_list (map snd (filter (\<lambda>kv. 0 < snd kv) ?ER))"
    using arg_cong [OF tx, of "\<lambda>xs. sum_list (map snd xs)"] by (simp add: comp_def)
  also have "\<dots> = sum_list (map snd ?ER)" by (rule sum_filter_pos [OF nn])
  finally have tc: "sum_list (map tx_amount ?tx) = sum_list (map snd ?ER)" .
  have te: "sum_list (map snd ?ER) = cm_prizePool cm" using tot by (simp add: comp_def)
  show ?thesis
    unfolding verify_match_def Let_def
    using exp js_map_distinct [OF dER] C tc te js_get_filter_pos [OF dER nn]
    by (simp add: R list_all_iff)
qed

lemma sim_match_simps [simp]:
  "players (sim_match cfg lt now ps) = ps" "prizePool (sim_match cfg lt now ps) = cfg_totalPrizeGems cfg"
  "lobbyType (sim_match cfg lt now ps) = lt" "match_id (sim_match cfg lt now ps) = lt @ ''-sim-'' @ to_base36 now"
  by (simp_all add: sim_match_def)

lemma simulate_shape:
  assumes "dev_simulate e cfgs now rnd lt n scores w = (Done mid, w')"
  obtains cfg where "isDevAuth e" "1 \<le> n" "cfgs lt = Some cfg"
    "mid = match_id (sim_match cfg lt now (map (sim_player now scores rnd) [0..<n]))"
    "w' = w\<lparr>w_history := saveCompletedMatch cfgs (sim_match cfg lt now (map (sim_player now scores rnd) [0..<n])) (w_history w),
           w_ledger := credit_all (sim_match cfg lt now (map (sim_player now scores rnd) [0..<n]))
                         (rankAndAllocateWinnings (map (sim_player now scores rnd) [0..<n]) (cfg_totalPrizeGems cfg)
                            (cfg_payoutMultipliers cfg))
                         (fold upsert_account (map player_id (map (sim_player now scores rnd) [0..<n])) (w_ledger w))\<rparr>"
  using assms that
  by (auto simp: dev_simulate_def Let_def simp del: sim_match_simps(4) split: if_splits option.splits)

section \<open>Properties\<close>

text \<open>C13: The two developer endpoints agree: after \<open>/dev/simulate\<close> has
  stored and paid a match whose pool is positive and whose paid ranks have some positive
  weight, \<open>/dev/verify\<close> on that match reports it consistent: the allocation recomputed
  from the recorded players, the winnings recorded in the history row and the prizes
  credited in the journal agree for every user, and both totals equal the pool (the
  match id being new to the history and the journal).\<close>

theorem simulate_then_verify:
  assumes sim: "dev_simulate e cfgs now rnd lt n scores w = (Done mid, w')"
    and cfg: "cfgs lt = Some cfg" and pool: "0 < cfg_totalPrizeGems cfg"
    and wts: "0 < sum_list (map (max 0) (take n (cfg_payoutMultipliers cfg)))"
    and hist: "mid \<notin> fst ` set (w_history w)"
    and fresh: "\<forall>t \<in> set (txns (w_ledger w)). tx_matchId t \<noteq> Some mid"
  shows "\<exists>r. dev_verify e cfgs (Some mid) 20 w' = Done (True, [r]) \<and> vr_ok r"
proof -
  define ps where "ps = map (sim_player now scores rnd) [0..<n]"
  define m where "m = sim_match cfg lt now ps"
  define R where "R = rankAndAllocateWinnings ps (cfg_totalPrizeGems cfg) (cfg_payoutMultipliers cfg)"
  define l1 where "l1 = fold upsert_account (map player_id ps) (w_ledger w)"
  obtain cfg' where dev: "isDevAuth e" and n1: "1 \<le> n" and c': "cfgs lt = Some cfg'"
    and mid0: "mid = match_id (sim_match cfg' lt now ps)"
    and w0: "w' = w\<lparr>w_history := saveCompletedMatch cfgs (sim_match cfg' lt now ps) (w_history w),
                    w_ledger := credit_all (sim_match cfg' lt now ps)
                      (rankAndAllocateWinnings ps (cfg_totalPrizeGems cfg') (cfg_payoutMultipliers cfg'))
                      (fold upsert_account (map player_id ps) (w_ledger w))\<rparr>"
    by (rule simulate_shape [OF sim, folded ps_def])
  have cc: "cfg' = cfg" using c' cfg by simp
  have mid: "mid = match_id m" using mid0 cc by (simp add: m_def)
  have w1: "w' = w\<lparr>w_history := saveCompletedMatch cfgs m (w_history w), w_ledger := credit_all m R l1\<rparr>"
    using w0 cc by (simp add: m_def R_def l1_def)
  have ms: "cfg_or cfgs lt cfg_payoutMultipliers [] = cfg_payoutMultipliers cfg"
    using cfg by (simp add: cfg_or_def)
  have dR: "distinct (map player_id R)"
    using sim_ids_distinct [of now scores rnd n] ranked_ids [of ps] mset_eq_imp_distinct_iff
    unfolding R_def ps_def by metis
  have hR: "w_history w' = w_history w @ [(mid, history_row m R)]"
    using hist mid w1 ms by (simp add: saveCompletedMatch_def history_create_def m_def R_def)
  have rows: "filter (\<lambda>(i, r). i = mid) (w_history w') = [(mid, history_row m R)]"
  proof -
    have "filter (\<lambda>(i, r). i = mid) (w_history w) = []"
      using hist by (force simp: filter_empty_conv)
    then show ?thesis by (simp add: hR)
  qed
  have midne: "mid \<noteq> []" using mid by (simp add: m_def)
  note up = upsert_facts [of "map player_id ps" "w_ledger w"]
  have idsR: "set (map player_id R) = set (map player_id ps)"
    using ranked_ids [of ps] unfolding R_def by (metis set_mset_mset)
  have acc: "\<forall>p \<in> set R. accounts l1 (player_id p) \<noteq> None \<and> \<not> has_key (player_id p) ''prize'' (match_id m) l1"
  proof
    fix p assume "p \<in> set R"
    then have "player_id p \<in> set (map player_id ps)" using idsR by auto
    moreover have "\<not> has_key (player_id p) ''prize'' (match_id m) l1"
      using fresh up mid by (auto simp: has_key_def l1_def list_ex_iff)
    ultimately show "accounts l1 (player_id p) \<noteq> None \<and> \<not> has_key (player_id p) ''prize'' (match_id m) l1"
      using up by (force simp: l1_def)
  qed
  obtain ys where ys: "txns (credit_all m R l1) = txns l1 @ ys"
    "map tx_sig ys = map (\<lambda>p. (player_id p, ''prize'', Some (match_id m), winnings_of p)) (filter (\<lambda>p. 0 < winnings_of p) R)"
    using credit_all_rows [OF dR acc] by blast
  have "\<forall>y \<in> set ys. tx_matchId y = Some mid \<and> tx_type y = ''prize''"
  proof
    fix y assume "y \<in> set ys"
    then have "tx_sig y \<in> set (map tx_sig ys)" by simp
    then show "tx_matchId y = Some mid \<and> tx_type y = ''prize''" using ys(2) mid by auto
  qed
  moreover have "filter (\<lambda>t. tx_matchId t = Some mid \<and> tx_type t = ''prize'') (txns l1) = []"
    using fresh up by (auto simp: l1_def filter_empty_conv)
  ultimately have txf: "filter (\<lambda>t. tx_matchId t = Some mid \<and> tx_type t = ''prize'') (txns (w_ledger w')) = ys"
    using ys(1) w1 by simp
  have "map (\<lambda>t. (tx_userId t, tx_amount t)) ys =
        filter (\<lambda>kv. 0 < snd kv) (map (\<lambda>p. (player_id p, winnings_of p)) R)"
    using arg_cong [OF ys(2), of "map (\<lambda>(u, ty, mi, a). (u, a))"] by (simp add: comp_def filter_map)
  then have tx: "map (\<lambda>t. (tx_userId t, tx_amount t))
                   (filter (\<lambda>t. tx_matchId t = Some mid \<and> tx_type t = ''prize'') (txns (w_ledger w'))) =
                 filter (\<lambda>kv. 0 < snd kv) (map (\<lambda>p. (player_id p, winnings_of p)) R)"
    by (simp add: txf)
  have tot: "sum_list (map winnings_of R) = cfg_totalPrizeGems cfg"
  proof -
    have l: "length ps = n" by (simp add: ps_def)
    have "0 < cfg_totalPrizeGems cfg \<and> ps \<noteq> [] \<and> cfg_payoutMultipliers cfg \<noteq> [] \<and>
          0 < sum_list (map (max 0) (take (length ps) (cfg_payoutMultipliers cfg)))"
      using n1 pool wts l by auto
    then show ?thesis by (simp add: R_def allocated_total)
  qed
  have ok: "vr_ok (verify_match cfgs (w_ledger w') (mid, history_row m R))"
    by (rule verify_match_ok [OF _ _ dR tx])
       (simp_all add: history_row_def m_def R_def ms tot [unfolded R_def])
  show ?thesis
    using dev midne ok rows by (simp add: dev_verify_def)
qed

section \<open>Witnesses\<close>

theorem simulate_then_verify_witness:
  "\<exists>r. dev_verify (demo_env\<lparr>env_AUTH_MODE := Some ''dev''\<rparr>) demo_cfgs (Some (''classic-sim-'' @ to_base36 5)) 20
         (snd (dev_simulate (demo_env\<lparr>env_AUTH_MODE := Some ''dev''\<rparr>) demo_cfgs 5 (\<lambda>_. 0) ''classic'' 2
                 (Some [3, 1]) demo_world)) = Done (True, [r]) \<and> vr_ok r"
proof -
  let ?e = "demo_env\<lparr>env_AUTH_MODE := Some ''dev''\<rparr>"
  let ?s = "dev_simulate ?e demo_cfgs 5 (\<lambda>_. 0) ''classic'' 2 (Some [3, 1]) demo_world"
  have dev: "isDevAuth ?e"
    by (simp add: isDevAuth_def getAuthMode_def demo_env_def toLowerCase_def to_lower_char_def)
  have "fst ?s = Done (''classic-sim-'' @ to_base36 5)"
    using dev by (simp add: dev_simulate_def demo_cfgs_def sim_match_def Let_def)
  then have s: "?s = (Done (''classic-sim-'' @ to_base36 5), snd ?s)" by (metis prod.collapse)
  have c: "demo_cfgs ''classic'' = Some demo_cfg" by (simp add: demo_cfgs_def)
  have p: "0 < cfg_totalPrizeGems demo_cfg" "0 < sum_list (map (max 0) (take 2 (cfg_payoutMultipliers demo_cfg)))"
    by (simp_all add: demo_cfg_def)
  have h: "(''classic-sim-'' @ to_base36 5) \<notin> fst ` set (w_history demo_world)" by (simp add: demo_world_def)
  have f: "\<forall>t \<in> set (txns (w_ledger demo_world)). tx_matchId t \<noteq> Some (''classic-sim-'' @ to_base36 5)"
    by (simp add: demo_world_def demo_ledger_def)
  show ?thesis using simulate_then_verify [OF s c p h f] .
qed

end
