(* ===== verification/Http.thy ===== *)
theory Http
  imports Auth
begin

text \<open>
  The Express application of src/backend/src/server.ts (lines 27-50 and 286-296): the
  two top-level routes \<open>GET /health\<close> and \<open>GET /config\<close>, the six routers mounted under
  their prefixes, three of them behind the \<open>authFirebase\<close> middleware, and the second
  \<open>GET /health\<close> registered at the end of the file. A request is dispatched to the first
  layer of the stack that matches it, as Express does; a mounted router that has no
  route for the rest of the path passes the request on to the later layers.

  A path is the list of its segments, the text between the slashes, with the trailing
  slash Express ignores dropped. Express matches paths case-insensitively (the default
  of its router), and a parameter such as \<open>:matchId\<close> matches any nonempty segment.
  The global middlewares (helmet, cors, the JSON body parser, logging) change no state
  of the model and are not layers here.
\<close>

section \<open>Routes and the dispatcher\<close>

datatype http_method = GET | POST

datatype seg = Lit string | Param

text \<open>A route path against the segments of the request, and a mount prefix against their
  beginning.\<close>

fun seg_match :: "seg list \<Rightarrow> string list \<Rightarrow> bool" where
  "seg_match [] [] = True"
| "seg_match (Lit s # ps) (x # xs) = (toLowerCase s = toLowerCase x \<and> seg_match ps xs)"
| "seg_match (Param # ps) (x # xs) = (x \<noteq> [] \<and> seg_match ps xs)"
| "seg_match _ _ = False"

fun prefix_match :: "seg list \<Rightarrow> string list \<Rightarrow> bool" where
  "prefix_match [] xs = True"
| "prefix_match (Lit s # ps) (x # xs) = (toLowerCase s = toLowerCase x \<and> prefix_match ps xs)"
| "prefix_match (Param # ps) (x # xs) = (x \<noteq> [] \<and> prefix_match ps xs)"
| "prefix_match (p # ps) [] = False"

text \<open>What answers a request: one of the top-level routes, or a route of a mounted
  router, named by the router and the route's method and path.\<close>

datatype endpoint = Health | Config | HealthDb | Routed string http_method "seg list"

text \<open>A layer of the stack: \<open>app.get(path, handler)\<close>, or \<open>app.use(prefix, [authFirebase,]
  router)\<close> with the router's routes in their order of registration.\<close>

datatype layer =
    Route http_method "seg list" endpoint
  | Mount "seg list" bool string "(http_method \<times> seg list) list"

datatype http_result = NotFound | Denied nat string | Answered endpoint "req_user option"

definition find_route ::
  "(http_method \<times> seg list) list \<Rightarrow> http_method \<Rightarrow> string list \<Rightarrow> seg list option" where
  "find_route rts m p = map_option snd (find (\<lambda>(m', pat). m' = m \<and> seg_match pat p) rts)"

text \<open>Express's dispatch: the first matching layer answers; a guarded mount runs
  \<open>authFirebase\<close> before its router (a refusal ends the request), and a router without a
  route for the request calls \<open>next()\<close>. No layer matches: Express's 404.\<close>

fun dispatch ::
  "env \<Rightarrow> (string \<Rightarrow> string option) \<Rightarrow> fb_state \<Rightarrow> string option \<Rightarrow> http_method \<Rightarrow> string list \<Rightarrow>
   layer list \<Rightarrow> http_result" where
  "dispatch e ck s h m p [] = NotFound"
| "dispatch e ck s h m p (Route m' pat ep # ls) =
     (if m' = m \<and> seg_match pat p then Answered ep None else dispatch e ck s h m p ls)"
| "dispatch e ck s h m p (Mount pre g rn rts # ls) =
     (if \<not> prefix_match pre p then dispatch e ck s h m p ls
      else if g then
        (case authFirebase e ck s h of
           Refused c msg \<Rightarrow> Denied c msg
         | Done u \<Rightarrow>
             (case find_route rts m (drop (length pre) p) of
                Some pat \<Rightarrow> Answered (Routed rn m pat) (Some u)
              | None \<Rightarrow> dispatch e ck s h m p ls))
      else
        (case find_route rts m (drop (length pre) p) of
           Some pat \<Rightarrow> Answered (Routed rn m pat) None
         | None \<Rightarrow> dispatch e ck s h m p ls))"

section \<open>The application\<close>

text \<open>The routes of each router, in the order of the \<open>router.get\<close>/\<open>router.post\<close> calls of
  its module.\<close>

definition lobbies_routes :: "(http_method \<times> seg list) list" where
  "lobbies_routes = [(GET, [])]"

definition boards_routes :: "(http_method \<times> seg list) list" where
  "boards_routes = [(POST, [])]"

definition matches_routes :: "(http_method \<times> seg list) list" where
  "matches_routes =
     [(POST, [Lit ''join'']), (POST, [Lit ''leave'']), (POST, [Param, Lit ''save-words'']),
      (POST, [Param, Lit ''validate'']), (POST, [Param, Lit ''words'']), (GET, [Param]),
      (GET, [Param, Lit ''details'']), (GET, []), (POST, [Lit ''dev'', Lit ''simulate'']),
      (POST, [Lit ''dev'', Lit ''verify''])]"

definition validate_routes :: "(http_method \<times> seg list) list" where
  "validate_routes = [(POST, [Lit ''words'']), (GET, [Lit ''word''])]"

definition users_routes :: "(http_method \<times> seg list) list" where
  "users_routes =
     [(GET, [Lit ''me'']), (POST, [Lit ''username'']), (POST, [Lit ''login-or-register'']),
      (GET, [Lit ''matches''])]"

definition wallet_routes :: "(http_method \<times> seg list) list" where
  "wallet_routes = [(GET, [Lit ''transactions''])]"

text \<open>The stack of server.ts: lines 33-35, 37-43, 45-50 and 287-296.\<close>

definition app_layers :: "layer list" where
  "app_layers =
     [Route GET [Lit ''health''] Health,
      Route GET [Lit ''config''] Config,
      Mount [Lit ''lobbies''] False ''lobbies'' lobbies_routes,
      Mount [Lit ''boards''] False ''boards'' boards_routes,
      Mount [Lit ''matches''] True ''matches'' matches_routes,
      Mount [Lit ''validate''] False ''validate'' validate_routes,
      Mount [Lit ''users''] True ''users'' users_routes,
      Mount [Lit ''wallet''] True ''wallet'' wallet_routes,
      Route GET [Lit ''health''] HealthDb]"

text \<open>The Firebase state after the module-level \<open>initFirebase()\<close> of
  middlewares/authFirebase.ts (line 5), which runs when server.ts imports it.\<close>

definition server_fb :: "env \<Rightarrow> fb_state" where
  "server_fb e = initFirebase e \<lparr>fb_initialized = False, fb_app = False\<rparr>"

definition serve_http ::
  "env \<Rightarrow> (string \<Rightarrow> string option) \<Rightarrow> string option \<Rightarrow> http_method \<Rightarrow> string list \<Rightarrow> http_result" where
  "serve_http e ck h m p = dispatch e ck (server_fb e) h m p app_layers"

text \<open>\<open>GET /config\<close>, lines 37-43: the mode the server reports to clients.\<close>

definition config_authMode :: "env \<Rightarrow> string" where
  "config_authMode e =
     (if env_set (env_AUTH_MODE e) then the (env_AUTH_MODE e)
      else if env_NODE_ENV e = Some ''production'' then ''firebase'' else ''dev'')"

definition auth_mode_name :: "auth_mode \<Rightarrow> string" where
  "auth_mode_name a = (case a of DevAuth \<Rightarrow> ''dev'' | FirebaseAuth \<Rightarrow> ''firebase'')"

text \<open>The mounted routers of the stack, with their prefixes as paths, and a request
  path for a route: its literal segments, and \<open>x\<close> for a parameter.\<close>

definition app_mounts :: "(string list \<times> bool \<times> string \<times> (http_method \<times> seg list) list) list" where
  "app_mounts =
     concat (map (\<lambda>l. case l of
                        Mount pre g rn rts \<Rightarrow> [(map (\<lambda>x. case x of Lit s \<Rightarrow> s | Param \<Rightarrow> ''x'') pre, g, rn, rts)]
                      | Route _ _ _ \<Rightarrow> []) app_layers)"

definition route_path :: "seg list \<Rightarrow> string list" where
  "route_path pat = map (\<lambda>x. case x of Lit s \<Rightarrow> s | Param \<Rightarrow> ''x'') pat"

section \<open>Lemmas\<close>

text \<open>A route of a mounted router answers only through its mount, after the middleware
  when the mount is guarded.\<close>

lemma dispatch_Routed:
  assumes "dispatch e ck s h m p ls = Answered (Routed rn m' pat) u"
  shows "(\<exists>pre g rts. Mount pre g rn rts \<in> set ls \<and>
            (g \<longrightarrow> (\<exists>v. u = Some v \<and> authFirebase e ck s h = Done v)) \<and> (\<not> g \<longrightarrow> u = None)) \<or>
         (\<exists>q. Route m q (Routed rn m' pat) \<in> set ls)"
  using assms
proof (induction ls)
  case Nil
  then show ?case by simp
next
  case (Cons l ls)
  show ?case
  proof (cases l)
    case (Route m1 q ep)
    then show ?thesis using Cons by (auto split: if_splits)
  next
    case (Mount pre g nm rts)
    show ?thesis
    proof (cases "prefix_match pre p \<and> (g \<longrightarrow> (\<exists>v. authFirebase e ck s h = Done v)) \<and>
                  find_route rts m (drop (length pre) p) \<noteq> None")
      case True
      then have "nm = rn" "g \<longrightarrow> (\<exists>v. u = Some v \<and> authFirebase e ck s h = Done v)" "\<not> g \<longrightarrow> u = None"
        using Cons.prems Mount by (auto split: if_splits outcome.splits option.splits)
      then show ?thesis using Mount by auto
    next
      case False
      then have "dispatch e ck s h m p ls = Answered (Routed rn m' pat) u"
        using Cons.prems Mount by (auto split: if_splits outcome.splits option.splits)
      then show ?thesis using Cons.IH by auto
    qed
  qed
qed

text \<open>A top-level route answers only when it matches the request.\<close>

lemma dispatch_Route:
  assumes "dispatch e ck s h m p ls = Answered ep u" and "\<And>n m' pat. ep \<noteq> Routed n m' pat"
  shows "\<exists>pat. Route m pat ep \<in> set ls \<and> seg_match pat p"
  using assms
proof (induction e ck s h m p ls rule: dispatch.induct)
  case (3 e ck s h m p pre g nm rts ls)
  then show ?case
    by (auto split: if_splits outcome.splits option.splits)
qed (auto split: if_splits)

text \<open>The facts that evaluate \<open>toLowerCase\<close> on a string literal.\<close>

lemmas lower_eval = toLowerCase_def to_lower_char_def char_of_def bit_0

lemma toLowerCase_eq_Nil [simp]: "toLowerCase s = [] \<longleftrightarrow> s = []"
  by (simp add: toLowerCase_def)

section \<open>Properties\<close>

text \<open>C31: The status check registered at the end of server.ts (lines 287-296),
  which would report whether Redis and Postgres answer, is never reached: every request it
  matches is answered first by the plain \<open>GET /health\<close> of line 33.\<close>

theorem health_db_unreachable: "serve_http e ck h m p \<noteq> Answered HealthDb u"
proof
  assume a: "serve_http e ck h m p = Answered HealthDb u"
  then obtain pat where "Route m pat HealthDb \<in> set app_layers" "seg_match pat p"
    using dispatch_Route [of e ck "server_fb e" h m p app_layers HealthDb u]
    by (auto simp: serve_http_def)
  then have "m = GET" "seg_match [Lit ''health''] p" by (auto simp: app_layers_def)
  then have "serve_http e ck h m p = Answered Health None"
    by (simp add: serve_http_def app_layers_def)
  with a show False by simp
qed

text \<open>C10: In Firebase mode every request that a route of \<open>/matches\<close>, \<open>/users\<close>
  or \<open>/wallet\<close> answers carries an authorization header whose token the Firebase SDK
  verified, and the route sees the uid of that token: the middleware of the mount runs
  before the router.\<close>

theorem guarded_routers_authenticated:
  assumes "getAuthMode e = FirebaseAuth"
    and "serve_http e ck h m p = Answered (Routed rn m' pat) u"
    and "rn \<in> {''matches'', ''users'', ''wallet''}"
  shows "\<exists>a uid. h = Some a \<and> ck (replace_first ''Bearer '' [] a) = Some uid \<and> u = Some (TokenUser uid)"
proof -
  have "dispatch e ck (server_fb e) h m p app_layers = Answered (Routed rn m' pat) u"
    using assms(2) by (simp only: serve_http_def)
  moreover have "\<not> (\<exists>q. Route m q (Routed rn m' pat) \<in> set app_layers)"
    by (simp add: app_layers_def)
  ultimately obtain pre g rts where mem: "Mount pre g rn rts \<in> set app_layers"
    and gu: "g \<longrightarrow> (\<exists>v. u = Some v \<and> authFirebase e ck (server_fb e) h = Done v)"
    using dispatch_Routed [of e ck "server_fb e" h m p app_layers rn m' pat u] by blast
  have "g" using mem assms(3) by (auto simp: app_layers_def)
  then obtain v where v: "u = Some v" "authFirebase e ck (server_fb e) h = Done v" using gu by auto
  have "\<not> isDevAuth e" using assms(1) by (simp add: isDevAuth_def)
  then show ?thesis using authFirebase_Done [OF v(2)] v(1) by blast
qed

text \<open>Every route of every mounted router is reachable: a request for it is answered by
  that route, after the middleware for the guarded mounts, so no earlier layer or route
  shadows it.\<close>

theorem routes_reachable:
  "list_all (\<lambda>(pre, g, rn, rts). list_all (\<lambda>(m, pat).
      serve_http e ck h m (pre @ route_path pat) =
        (if g then (case authFirebase e ck (server_fb e) h of
                      Refused c msg \<Rightarrow> Denied c msg
                    | Done v \<Rightarrow> Answered (Routed rn m pat) (Some v))
         else Answered (Routed rn m pat) None)) rts) app_mounts"
  by (simp add: app_mounts_def app_layers_def serve_http_def route_path_def find_route_def
      lobbies_routes_def boards_routes_def matches_routes_def validate_routes_def users_routes_def
      wallet_routes_def lower_eval split: outcome.split)

text \<open>When \<open>AUTH_MODE\<close> is unset, empty or one of the two modes in lower case, and
  \<open>NODE_ENV\<close> is \<open>production\<close> only in lower case, \<open>GET /config\<close> reports the mode the
  server runs in.\<close>

theorem config_mode_agrees:
  assumes "env_AUTH_MODE e \<in> {None, Some [], Some ''dev'', Some ''firebase''}"
    and "toLowerCase (or_default (env_NODE_ENV e) []) = ''production'' \<longleftrightarrow> env_NODE_ENV e = Some ''production''"
  shows "config_authMode e = auth_mode_name (getAuthMode e)"
  using assms
  by (auto simp: config_authMode_def auth_mode_name_def getAuthMode_def env_set_def Let_def
      toLowerCase_def to_lower_char_def)

text \<open>\<open>GET /config\<close> can report a mode other than the one the server
  runs in: with \<open>NODE_ENV=Production\<close> the server runs in Firebase mode, since
  \<open>getAuthMode\<close> lower-cases the variable, while \<open>/config\<close> compares it exactly and
  tells clients \<open>dev\<close>.\<close>

theorem config_mode_diverges:
  "config_authMode (demo_env\<lparr>env_AUTH_MODE := None, env_NODE_ENV := Some ''Production''\<rparr>) = ''dev'' \<and>
   getAuthMode (demo_env\<lparr>env_AUTH_MODE := None, env_NODE_ENV := Some ''Production''\<rparr>) = FirebaseAuth"
  by (simp add: config_authMode_def getAuthMode_def env_set_def Let_def lower_eval)

section \<open>Witnesses\<close>

theorem guarded_routers_authenticated_witness:
  "serve_http demo_env demo_check (Some ''Bearer tok-a'') POST [''matches'', ''join''] =
     Answered (Routed ''matches'' POST [Lit ''join'']) (Some (TokenUser ''uid-a'')) \<and>
   demo_check (replace_first ''Bearer '' [] ''Bearer tok-a'') = Some ''uid-a''"
proof -
  have nd: "\<not> isDevAuth demo_env" using demo_env_mode by (simp add: isDevAuth_def)
  have a: "authFirebase demo_env demo_check (server_fb demo_env) (Some ''Bearer tok-a'') = Done (TokenUser ''uid-a'')"
    using nd by (simp add: authFirebase_def verifyIdToken_def demo_check_def server_fb_def initFirebase_def
        env_set_def demo_env_def)
  have s: "serve_http demo_env demo_check (Some ''Bearer tok-a'') POST [''matches'', ''join''] =
     Answered (Routed ''matches'' POST [Lit ''join'']) (Some (TokenUser ''uid-a''))"
    using a by (simp add: serve_http_def app_layers_def matches_routes_def lobbies_routes_def boards_routes_def
        find_route_def lower_eval)
  from guarded_routers_authenticated [OF demo_env_mode s] s show ?thesis by simp
qed

end
