(* ===== verification/Assets.thy ===== *)
theory Assets
  imports Dictionary Lobbies "HOL-Library.Sublist"
begin

text \<open>
  The build script src/backend/scripts/copy-assets.js and the two places where the
  server reads a file: \<open>resolveWordsPath\<close> and the read in \<open>initDictionary\<close>
  (services/dictionary.ts, lines 50-79), and the read of \<open>lobbies.json\<close> in
  \<open>loadLobbyConfig\<close> (config/lobbies.ts, lines 38-44).

  The file system is an association list from absolute paths, lists of path segments,
  to nodes, a file with its content or a directory; the root directory always exists. An
  operation of \<open>fs\<close> that throws (a missing source, a file where a directory is needed)
  ends the script with an uncaught exception: the error is the \<open>Inl\<close> value, and the
  writes done before it stay. \<open>path.join\<close> and \<open>path.resolve\<close> on an absolute directory
  append the segments of their arguments and resolve \<open>..\<close> and \<open>.\<close>. The script's and the
  modules' directories (\<open>__dirname\<close>) and the working directory are parameters; the
  console output is not modelled. \<open>JSON.parse\<close> is a parameter \<open>parse\<close> from the text
  to the parsed value, \<open>None\<close> when it throws.
\<close>

section \<open>Paths and the file system\<close>

datatype node = File string | Dir

type_synonym path = "string list"

type_synonym fs = "(path \<times> node) list"

text \<open>The segments of a relative path written with slashes.\<close>

fun split_slash :: "string \<Rightarrow> string list" where
  "split_slash [] = [[]]"
| "split_slash (ch # s) =
     (let rest = split_slash s in if ch = CHR ''/'' then [] # rest else (ch # hd rest) # tl rest)"

definition norm_step :: "path \<Rightarrow> string \<Rightarrow> path" where
  "norm_step acc s = (if s = ''..'' then butlast acc else if s = [] \<or> s = ''.'' then acc else acc @ [s])"

text \<open>\<open>path.join(dir, a, b, ...)\<close> and \<open>path.resolve(dir, rel)\<close> on an absolute \<open>dir\<close>.\<close>

definition path_join :: "path \<Rightarrow> string list \<Rightarrow> path" where
  "path_join dir args = fold (\<lambda>s acc. norm_step acc s) (concat (map split_slash args)) dir"

definition fs_get :: "fs \<Rightarrow> path \<Rightarrow> node option" where
  "fs_get f p = (if p = [] then Some Dir else map_of f p)"

definition existsSync :: "fs \<Rightarrow> path \<Rightarrow> bool" where
  "existsSync f p = (fs_get f p \<noteq> None)"

text \<open>\<open>fs.mkdirSync(p, { recursive: true })\<close>: every missing ancestor and \<open>p\<close> become
  directories; a file on the way throws.\<close>

fun mkdirs :: "path \<Rightarrow> string list \<Rightarrow> fs \<Rightarrow> string + fs" where
  "mkdirs cur [] f = Inr f"
| "mkdirs cur (s # ss) f =
     (case fs_get f (cur @ [s]) of
        Some (File _) \<Rightarrow> Inl ''EEXIST''
      | Some Dir \<Rightarrow> mkdirs (cur @ [s]) ss f
      | None \<Rightarrow> mkdirs (cur @ [s]) ss (AList.update (cur @ [s]) Dir f))"

definition mkdirSync :: "path \<Rightarrow> fs \<Rightarrow> string + fs" where
  "mkdirSync p f = mkdirs [] p f"

text \<open>\<open>fs.readdirSync(d)\<close>: the names of the entries of a directory.\<close>

definition readdirSync :: "fs \<Rightarrow> path \<Rightarrow> string + string list" where
  "readdirSync f d =
     (case fs_get f d of
        Some Dir \<Rightarrow> Inr (map (\<lambda>(p, n). last p) (filter (\<lambda>(p, n). p \<noteq> [] \<and> butlast p = d) f))
      | Some (File _) \<Rightarrow> Inl ''ENOTDIR''
      | None \<Rightarrow> Inl ''ENOENT'')"

text \<open>\<open>fs.copyFileSync(src, dst)\<close>: the source must be a file and the target's directory
  must exist; an existing file at the target is overwritten.\<close>

definition copyFileSync :: "path \<Rightarrow> path \<Rightarrow> fs \<Rightarrow> string + fs" where
  "copyFileSync src dst f =
     (case fs_get f src of
        Some (File c) \<Rightarrow>
          (if dst = [] \<or> fs_get f (butlast dst) \<noteq> Some Dir then Inl ''ENOENT''
           else if fs_get f dst = Some Dir then Inl ''EISDIR''
           else Inr (AList.update dst (File c) f))
      | Some Dir \<Rightarrow> Inl ''EISDIR''
      | None \<Rightarrow> Inl ''ENOENT'')"

text \<open>\<open>fs.readFileSync(p)\<close>, \<open>None\<close> when it throws.\<close>

definition readFileSync :: "fs \<Rightarrow> path \<Rightarrow> string option" where
  "readFileSync f p = (case fs_get f p of Some (File c) \<Rightarrow> Some c | _ \<Rightarrow> None)"

definition endsWith :: "string \<Rightarrow> string \<Rightarrow> bool" where
  "endsWith s suf = (length suf \<le> length s \<and> drop (length s - length suf) s = suf)"

section \<open>copy-assets.js\<close>

text \<open>The loops of lines 19-26 and 47-54: every listed name with the extension is copied
  from the source to the target directory.\<close>

fun copy_matching :: "string \<Rightarrow> path \<Rightarrow> path \<Rightarrow> string list \<Rightarrow> fs \<Rightarrow> string + fs" where
  "copy_matching ext sd dd [] f = Inr f"
| "copy_matching ext sd dd (x # xs) f =
     (if endsWith x ext then
        (case copyFileSync (path_join sd [x]) (path_join dd [x]) f of
           Inl e \<Rightarrow> Inl e
         | Inr f' \<Rightarrow> copy_matching ext sd dd xs f')
      else copy_matching ext sd dd xs f)"

text \<open>\<open>if (!fs.existsSync(d)) fs.mkdirSync(d, { recursive: true })\<close>.\<close>

definition ensure_dir :: "path \<Rightarrow> fs \<Rightarrow> string + fs" where
  "ensure_dir d f = (if existsSync f d then Inr f else mkdirSync d f)"

text \<open>Lines 8-29: the JSON files of src/config into dist/config.\<close>

definition copy_config :: "path \<Rightarrow> fs \<Rightarrow> string + fs" where
  "copy_config dir f =
     (let srcDir = path_join dir [''..'', ''src'', ''config''];
          distDir = path_join dir [''..'', ''dist'', ''config'']
      in case ensure_dir distDir f of
           Inl e \<Rightarrow> Inl e
         | Inr f1 \<Rightarrow>
             (if existsSync f1 srcDir then
                (case readdirSync f1 srcDir of
                   Inl e \<Rightarrow> Inl e
                 | Inr files \<Rightarrow> copy_matching ''.json'' srcDir distDir files f1)
              else Inr f1))"

text \<open>Lines 32-35: the dictionary directory of the repository root, then of the
  backend.\<close>

definition dict_candidates :: "path \<Rightarrow> path list" where
  "dict_candidates dir =
     [path_join dir [''..'', ''..'', ''assets'', ''dictionaries''], path_join dir [''..'', ''assets'', ''dictionaries'']]"

text \<open>Lines 31-57: the text files of the first existing dictionary directory into
  dist/assets/dictionaries.\<close>

definition copy_dictionaries :: "path \<Rightarrow> fs \<Rightarrow> string + fs" where
  "copy_dictionaries dir f =
     (let distDir = path_join dir [''..'', ''dist'', ''assets'', ''dictionaries'']
      in case find (existsSync f) (dict_candidates dir) of
           None \<Rightarrow> Inr f
         | Some d \<Rightarrow>
             (case ensure_dir distDir f of
                Inl e \<Rightarrow> Inl e
              | Inr f1 \<Rightarrow>
                  (case readdirSync f1 d of
                     Inl e \<Rightarrow> Inl e
                   | Inr files \<Rightarrow> copy_matching ''.txt'' d distDir files f1)))"

text \<open>The script, run from its directory \<open>dir\<close> (backend/scripts).\<close>

definition copy_assets :: "path \<Rightarrow> fs \<Rightarrow> string + fs" where
  "copy_assets dir f = (case copy_config dir f of Inl e \<Rightarrow> Inl e | Inr f1 \<Rightarrow> copy_dictionaries dir f1)"

section \<open>The server's reads\<close>

text \<open>\<open>resolveWordsPath\<close>, lines 50-71, from the module's directory \<open>dir\<close> and the working
  directory \<open>cwd\<close>: the first candidate that exists, or else the first candidate.\<close>

definition words_candidates :: "path \<Rightarrow> path \<Rightarrow> path list" where
  "words_candidates dir cwd =
     [path_join dir [''../../../assets/dictionaries/words.txt''],
      path_join dir [''../../assets/dictionaries/words.txt''],
      path_join dir [''../assets/dictionaries/words.txt''],
      path_join cwd [''assets/dictionaries/words.txt'']]"

definition resolveWordsPath :: "path \<Rightarrow> path \<Rightarrow> fs \<Rightarrow> path" where
  "resolveWordsPath dir cwd f =
     (case find (existsSync f) (words_candidates dir cwd) of
        Some p \<Rightarrow> p
      | None \<Rightarrow> hd (words_candidates dir cwd))"

text \<open>The content \<open>initDictionary\<close> reads (lines 75-79), its argument \<open>file\<close> in theory
  \<open>Dictionary\<close>.\<close>

definition words_file :: "path \<Rightarrow> path \<Rightarrow> fs \<Rightarrow> string option" where
  "words_file dir cwd f = readFileSync f (resolveWordsPath dir cwd f)"

text \<open>The parsed \<open>lobbies.json\<close> beside the module (lines 40-44), the argument of
  \<open>loadLobbyConfig\<close> in theory \<open>Lobbies\<close>.\<close>

definition lobbies_file :: "(string \<Rightarrow> json option) \<Rightarrow> path \<Rightarrow> fs \<Rightarrow> json option" where
  "lobbies_file parse dir f = Option.bind (readFileSync f (path_join dir [''lobbies.json''])) parse"

section \<open>Well-formed trees and deployments\<close>

text \<open>A name readdir can return: nonempty, not \<open>.\<close> or \<open>..\<close>, without a slash.\<close>

definition good_name :: "string \<Rightarrow> bool" where
  "good_name s = (s \<noteq> [] \<and> s \<noteq> ''.'' \<and> s \<noteq> ''..'' \<and> CHR ''/'' \<notin> set s)"

text \<open>A tree: each path once, every entry's directory exists, every name good.\<close>

definition wf_fs :: "fs \<Rightarrow> bool" where
  "wf_fs f =
     (distinct (map fst f) \<and>
      list_all (\<lambda>(p, n). p \<noteq> [] \<and> fs_get f (butlast p) = Some Dir \<and> list_all good_name p) f)"

text \<open>The tree \<open>q\<close> shipped alone: the entries below \<open>q\<close> and its ancestors.\<close>

definition deploy_only :: "path \<Rightarrow> fs \<Rightarrow> fs" where
  "deploy_only q f = filter (\<lambda>(p, n). prefix q p \<or> prefix p q) f"

text \<open>Every segment of every stored path is a good name.\<close>

definition names_ok :: "fs \<Rightarrow> bool" where
  "names_ok f = list_all (\<lambda>(p, n). list_all good_name p) f"

section \<open>Scenario\<close>

text \<open>A checkout with the backend at \<open>/app\<close>: its scripts, its src/config with the lobby
  file, and its own dictionary directory with the word file.\<close>

definition demo_tree :: fs where
  "demo_tree =
     [([''app''], Dir), ([''app'', ''scripts''], Dir), ([''app'', ''src''], Dir),
      ([''app'', ''src'', ''config''], Dir), ([''app'', ''src'', ''config'', ''lobbies.json''], File ''{}''),
      ([''app'', ''assets''], Dir), ([''app'', ''assets'', ''dictionaries''], Dir),
      ([''app'', ''assets'', ''dictionaries'', ''words.txt''], File ''CAT'')]"

section \<open>Lemmas on paths and the file-system operations\<close>

lemma split_slash_name: "CHR ''/'' \<notin> set s \<Longrightarrow> split_slash s = [s]"
  by (induction s) (auto simp: Let_def)

lemma path_join_names: "list_all good_name xs \<Longrightarrow> path_join d xs = d @ xs"
proof (induction xs arbitrary: d)
  case Nil
  then show ?case by (simp add: path_join_def)
next
  case (Cons x xs)
  then have "path_join (d @ [x]) xs = d @ [x] @ xs" by simp
  moreover have "path_join d (x # xs) = path_join (d @ [x]) xs"
    using Cons.prems by (simp add: path_join_def good_name_def split_slash_name norm_step_def)
  ultimately show ?case by simp
qed

lemma path_join_name [simp]: "good_name x \<Longrightarrow> path_join d [x] = d @ [x]"
  using path_join_names [of "[x]" d] by simp

lemma fs_get_Nil [simp]: "fs_get f [] = Some Dir"
  by (simp add: fs_get_def)

lemma fs_get_update:
  "fs_get (AList.update k v f) p = (if p \<noteq> [] \<and> p = k then Some v else fs_get f p)"
  by (simp add: fs_get_def update_conv')

lemma map_of_filter_key:
  "map_of (filter (\<lambda>(p, n). Q p) f) k = (if Q k then map_of f k else None)"
  by (induction f) auto

lemma fs_get_deploy_only:
  "fs_get (deploy_only q f) p = (if p = [] \<or> prefix q p \<or> prefix p q then fs_get f p else None)"
  by (simp add: deploy_only_def fs_get_def map_of_filter_key)

lemma good_name_simps [simp]:
  "good_name ''lobbies.json''" "good_name ''words.txt''" "good_name ''src''" "good_name ''dist''"
  "good_name ''config''" "good_name ''assets''" "good_name ''dictionaries''" "good_name ''scripts''"
  "good_name ''services''"
  by (simp_all add: good_name_def)

lemma names_ok_update:
  assumes "names_ok f" "list_all good_name k"
  shows "names_ok (AList.update k v f)"
  using assms set_alist_update [of _ k v f] unfolding names_ok_def list_all_iff by fastforce

lemma names_ok_good:
  "names_ok f \<Longrightarrow> map_of f p = Some n \<Longrightarrow> list_all good_name p"
  unfolding names_ok_def list_all_iff by (auto dest: map_of_SomeD)

lemma wf_names_ok: "wf_fs f \<Longrightarrow> names_ok f"
  by (auto simp: wf_fs_def names_ok_def list_all_iff)

text \<open>\<open>mkdirSync\<close> adds directories on the path and changes nothing that exists.\<close>

lemma mkdirs_keeps:
  "mkdirs cur ss f = Inr f' \<Longrightarrow> fs_get f p \<noteq> None \<Longrightarrow> fs_get f' p = fs_get f p"
proof (induction cur ss f rule: mkdirs.induct)
  case (2 cur s ss f)
  then show ?case
    by (auto simp: fs_get_update split: option.splits node.splits if_splits)
qed simp

lemma mkdirs_prefix:
  "mkdirs cur ss f = Inr f' \<Longrightarrow> fs_get f' p \<noteq> fs_get f p \<Longrightarrow> prefix p (cur @ ss)"
proof (induction cur ss f rule: mkdirs.induct)
  case (2 cur s ss f)
  then show ?case
    by (cases "p = cur @ [s]") (auto simp: fs_get_update split: option.splits node.splits)
qed simp

lemma mkdirs_names_ok:
  "mkdirs cur ss f = Inr f' \<Longrightarrow> names_ok f \<Longrightarrow> list_all good_name (cur @ ss) \<Longrightarrow> names_ok f'"
proof (induction cur ss f rule: mkdirs.induct)
  case (2 cur s ss f)
  then show ?case
    by (auto simp: names_ok_update split: option.splits node.splits)
qed simp

lemma ensure_dir_keeps:
  "ensure_dir d f = Inr f' \<Longrightarrow> fs_get f p \<noteq> None \<Longrightarrow> fs_get f' p = fs_get f p"
  by (auto simp: ensure_dir_def mkdirSync_def mkdirs_keeps split: if_splits)

lemma ensure_dir_prefix:
  "ensure_dir d f = Inr f' \<Longrightarrow> fs_get f' p \<noteq> fs_get f p \<Longrightarrow> prefix p d"
  using mkdirs_prefix [of "[]" d f f' p] by (auto simp: ensure_dir_def mkdirSync_def split: if_splits)

lemma ensure_dir_names_ok:
  "ensure_dir d f = Inr f' \<Longrightarrow> names_ok f \<Longrightarrow> list_all good_name d \<Longrightarrow> names_ok f'"
  using mkdirs_names_ok [of "[]" d f f'] by (auto simp: ensure_dir_def mkdirSync_def split: if_splits)

text \<open>\<open>readdirSync\<close> lists every entry of the directory, by good names.\<close>

lemma readdir_lists:
  assumes "readdirSync f d = Inr xs" "fs_get f (d @ [x]) \<noteq> None"
  shows "x \<in> set xs"
proof -
  obtain n where "map_of f (d @ [x]) = Some n" using assms(2) by (auto simp: fs_get_def)
  then have "(d @ [x], n) \<in> set (filter (\<lambda>(p, n). p \<noteq> [] \<and> butlast p = d) f)"
    by (auto dest: map_of_SomeD)
  then show ?thesis using assms(1)
    by (force simp: readdirSync_def split: option.splits node.splits)
qed

lemma readdir_good:
  assumes "readdirSync f d = Inr xs" "names_ok f"
  shows "list_all good_name xs"
proof -
  have "\<And>p n. (p, n) \<in> set f \<Longrightarrow> p \<noteq> [] \<Longrightarrow> good_name (last p)"
    using assms(2) last_in_set unfolding names_ok_def list_all_iff by fastforce
  then show ?thesis using assms(1)
    by (auto simp: readdirSync_def list_all_iff split: option.splits node.splits)
qed

lemma copyFileSync_Inr:
  assumes "copyFileSync s d f = Inr f'"
  shows "\<exists>c. fs_get f s = Some (File c) \<and> d \<noteq> [] \<and> f' = AList.update d (File c) f \<and>
             fs_get f (butlast d) = Some Dir \<and> fs_get f d \<noteq> Some Dir"
  using assms by (auto simp: copyFileSync_def split: option.splits node.splits if_splits)

text \<open>The copy loop writes only the targets of the names it lists, and each listed name
  with the extension arrives with the content of its source.\<close>

lemma copy_matching_other:
  "copy_matching ext sd dd xs f = Inr f' \<Longrightarrow> list_all good_name xs \<Longrightarrow>
   p \<notin> (\<lambda>y. dd @ [y]) ` set xs \<Longrightarrow> fs_get f' p = fs_get f p"
proof (induction ext sd dd xs f rule: copy_matching.induct)
  case (2 ext sd dd x xs f)
  show ?case
  proof (cases "endsWith x ext")
    case True
    then obtain f1 where c: "copyFileSync (sd @ [x]) (dd @ [x]) f = Inr f1"
      and r: "copy_matching ext sd dd xs f1 = Inr f'"
      using "2.prems" by (auto split: sum.splits)
    have "fs_get f1 p = fs_get f p"
      using copyFileSync_Inr [OF c] "2.prems"(3) by (auto simp: fs_get_update)
    then show ?thesis using "2.IH"(1) [OF True _ r] c "2.prems" by simp
  next
    case False
    then show ?thesis using "2.IH"(2) "2.prems" by simp
  qed
qed simp

lemma copy_matching_copies:
  "copy_matching ext sd dd xs f = Inr f' \<Longrightarrow> list_all good_name xs \<Longrightarrow> x \<in> set xs \<Longrightarrow>
   endsWith x ext \<Longrightarrow> fs_get f (sd @ [x]) = Some (File c) \<Longrightarrow> sd \<noteq> dd \<Longrightarrow>
   fs_get f' (dd @ [x]) = Some (File c)"
proof (induction ext sd dd xs f rule: copy_matching.induct)
  case (2 ext sd dd y ys f)
  show ?case
  proof (cases "endsWith y ext")
    case True
    then obtain f1 where c: "copyFileSync (sd @ [y]) (dd @ [y]) f = Inr f1"
      and r: "copy_matching ext sd dd ys f1 = Inr f'"
      using "2.prems" by (auto split: sum.splits)
    obtain c1 where c1: "fs_get f (sd @ [y]) = Some (File c1)" "f1 = AList.update (dd @ [y]) (File c1) f"
      using copyFileSync_Inr [OF c] by blast
    have src: "fs_get f1 (sd @ [x]) = Some (File c)"
      using c1 "2.prems"(5,6) by (auto simp: fs_get_update)
    show ?thesis
    proof (cases "x \<in> set ys")
      case True
      then show ?thesis using "2.IH"(1) [OF \<open>endsWith y ext\<close> _ r] c src "2.prems" by simp
    next
      case False
      then have "x = y" using "2.prems"(3) by simp
      then have "fs_get f1 (dd @ [x]) = Some (File c)" using c1 "2.prems"(5) by (simp add: fs_get_update)
      moreover have "dd @ [x] \<notin> (\<lambda>y. dd @ [y]) ` set ys" using False by auto
      then have "fs_get f' (dd @ [x]) = fs_get f1 (dd @ [x])"
        using copy_matching_other [OF r] "2.prems"(2) by simp
      ultimately show ?thesis by simp
    qed
  next
    case False
    then have "x \<in> set ys" using "2.prems"(3,4) by auto
    then show ?thesis using "2.IH"(2) False "2.prems" by simp
  qed
qed simp

lemma copy_matching_names_ok:
  "copy_matching ext sd dd xs f = Inr f' \<Longrightarrow> list_all good_name xs \<Longrightarrow> list_all good_name dd \<Longrightarrow>
   names_ok f \<Longrightarrow> names_ok f'"
proof (induction ext sd dd xs f rule: copy_matching.induct)
  case (2 ext sd dd x xs f)
  then show ?case
    by (auto simp: names_ok_update dest!: copyFileSync_Inr split: if_splits sum.splits)
qed simp

section \<open>Lemmas on the script\<close>

text \<open>The paths of the script run from \<open>B/scripts\<close> and of the modules compiled to
  \<open>B/dist\<close>.\<close>

lemma script_paths:
  "path_join (B @ [''scripts'']) [''..'', ''src'', ''config''] = B @ [''src'', ''config'']"
  "path_join (B @ [''scripts'']) [''..'', ''dist'', ''config''] = B @ [''dist'', ''config'']"
  "path_join (B @ [''scripts'']) [''..'', ''dist'', ''assets'', ''dictionaries''] =
     B @ [''dist'', ''assets'', ''dictionaries'']"
  "dict_candidates (B @ [''scripts'']) = [butlast B @ [''assets'', ''dictionaries''], B @ [''assets'', ''dictionaries'']]"
  "words_candidates (B @ [''dist'', ''services'']) cwd =
     [butlast B @ [''assets'', ''dictionaries'', ''words.txt''], B @ [''assets'', ''dictionaries'', ''words.txt''],
      B @ [''dist'', ''assets'', ''dictionaries'', ''words.txt''], path_join cwd [''assets/dictionaries/words.txt'']]"
  "path_join (B @ [''dist'', ''config'']) [''lobbies.json''] = B @ [''dist'', ''config'', ''lobbies.json'']"
  by (simp_all add: dict_candidates_def words_candidates_def path_join_def norm_step_def butlast_append)

lemma wf_parent:
  "wf_fs f \<Longrightarrow> fs_get f p = Some n \<Longrightarrow> p \<noteq> [] \<Longrightarrow> fs_get f (butlast p) = Some Dir"
  unfolding wf_fs_def list_all_iff by (auto simp: fs_get_def dest: map_of_SomeD)

lemma find_exists_cong:
  "(\<And>p. p \<in> set ps \<Longrightarrow> fs_get f1 p = fs_get f p) \<Longrightarrow> find (existsSync f1) ps = find (existsSync f) ps"
  by (induction ps) (auto simp: existsSync_def)

text \<open>The copy of src/config: only dist/config, its ancestors and its entries change, and
  every JSON file arrives.\<close>

lemma copy_config_facts:
  assumes run: "copy_config (B @ [''scripts'']) f = Inr f1" and wf: "wf_fs f" "names_ok f"
    and B: "list_all good_name B"
  shows "names_ok f1"
    and "fs_get f1 p \<noteq> fs_get f p \<Longrightarrow> prefix p (B @ [''dist'', ''config'']) \<or> (\<exists>y. p = B @ [''dist'', ''config'', y])"
    and "fs_get f (B @ [''src'', ''config'', x]) = Some (File c) \<Longrightarrow> endsWith x ''.json'' \<Longrightarrow>
         fs_get f1 (B @ [''dist'', ''config'', x]) = Some (File c)"
proof -
  obtain fa where ea: "ensure_dir (B @ [''dist'', ''config'']) f = Inr fa"
    and rest: "(if existsSync fa (B @ [''src'', ''config'']) then
                 (case readdirSync fa (B @ [''src'', ''config'']) of
                    Inl e \<Rightarrow> Inl e
                  | Inr files \<Rightarrow> copy_matching ''.json'' (B @ [''src'', ''config'']) (B @ [''dist'', ''config'']) files fa)
               else Inr fa) = Inr f1"
    using run by (auto simp: copy_config_def script_paths Let_def split: sum.splits)
  have na: "names_ok fa" using ensure_dir_names_ok [OF ea wf(2)] B by simp
  consider (skip) "f1 = fa"
    | (copy) files where "readdirSync fa (B @ [''src'', ''config'']) = Inr files"
        "copy_matching ''.json'' (B @ [''src'', ''config'']) (B @ [''dist'', ''config'']) files fa = Inr f1"
    using rest by (auto split: if_splits sum.splits)
  note cases = this
  show "names_ok f1"
    using cases
  proof cases
    case skip
    then show ?thesis using na by simp
  next
    case (copy files)
    then show ?thesis using copy_matching_names_ok [OF copy(2) readdir_good [OF copy(1) na] _ na] B by simp
  qed
  show "prefix p (B @ [''dist'', ''config'']) \<or> (\<exists>y. p = B @ [''dist'', ''config'', y])"
    if ne: "fs_get f1 p \<noteq> fs_get f p"
  proof (cases "fs_get fa p = fs_get f p")
    case False
    then show ?thesis using ensure_dir_prefix [OF ea] by blast
  next
    case True
    then have ch: "fs_get f1 p \<noteq> fs_get fa p" using ne by simp
    from cases show ?thesis
    proof cases
      case skip
      then show ?thesis using ch by simp
    next
      case (copy files)
      have "p \<in> (\<lambda>y. (B @ [''dist'', ''config'']) @ [y]) ` set files"
        using copy_matching_other [OF copy(2) readdir_good [OF copy(1) na]] ch by blast
      then show ?thesis by auto
    qed
  qed
  show "fs_get f1 (B @ [''dist'', ''config'', x]) = Some (File c)"
    if src: "fs_get f (B @ [''src'', ''config'', x]) = Some (File c)" and ext: "endsWith x ''.json''"
  proof -
    have srca: "fs_get fa (B @ [''src'', ''config'', x]) = Some (File c)"
      using ensure_dir_keeps [OF ea] src by simp
    have "fs_get f (B @ [''src'', ''config'']) = Some Dir"
      using wf_parent [OF wf(1) src] by (simp add: butlast_append)
    then have "fs_get fa (B @ [''src'', ''config'']) = Some Dir" using ensure_dir_keeps [OF ea] by simp
    then obtain files where rd: "readdirSync fa (B @ [''src'', ''config'']) = Inr files"
      and cp: "copy_matching ''.json'' (B @ [''src'', ''config'']) (B @ [''dist'', ''config'']) files fa = Inr f1"
      using rest by (auto simp: existsSync_def readdirSync_def)
    have "x \<in> set files" using readdir_lists [OF rd] srca by simp
    then show ?thesis
      using copy_matching_copies [OF cp readdir_good [OF rd na] _ ext] srca by simp
  qed
qed

text \<open>The copy of the dictionaries: only dist/assets/dictionaries, its ancestors and its
  entries change, and every text file of the chosen directory arrives.\<close>

lemma copy_dictionaries_facts:
  assumes run: "copy_dictionaries (B @ [''scripts'']) f = Inr f'" and na: "names_ok f"
    and B: "list_all good_name B"
  shows "fs_get f' p \<noteq> fs_get f p \<Longrightarrow>
           prefix p (B @ [''dist'', ''assets'', ''dictionaries'']) \<or> (\<exists>y. p = B @ [''dist'', ''assets'', ''dictionaries'', y])"
    and "find (existsSync f) (dict_candidates (B @ [''scripts''])) = Some d \<Longrightarrow>
         fs_get f (d @ [x]) = Some (File c) \<Longrightarrow> endsWith x ''.txt'' \<Longrightarrow>
         fs_get f' (B @ [''dist'', ''assets'', ''dictionaries'', x]) = Some (File c)"
proof -
  let ?dd = "B @ [''dist'', ''assets'', ''dictionaries'']"
  consider (none) "f' = f" "find (existsSync f) (dict_candidates (B @ [''scripts''])) = None"
    | (copy) d0 fa files where "find (existsSync f) (dict_candidates (B @ [''scripts''])) = Some d0"
        "ensure_dir ?dd f = Inr fa" "readdirSync fa d0 = Inr files"
        "copy_matching ''.txt'' d0 ?dd files fa = Inr f'"
    using run by (auto simp: copy_dictionaries_def script_paths Let_def split: option.splits sum.splits)
  note cases = this
  show "prefix p ?dd \<or> (\<exists>y. p = B @ [''dist'', ''assets'', ''dictionaries'', y])" if ne: "fs_get f' p \<noteq> fs_get f p"
    using cases
  proof cases
    case none
    then show ?thesis using ne by simp
  next
    case (copy d0 fa files)
    have nfa: "names_ok fa" using ensure_dir_names_ok [OF copy(2) na] B by simp
    show ?thesis
    proof (cases "fs_get fa p = fs_get f p")
      case False
      then show ?thesis using ensure_dir_prefix [OF copy(2)] by blast
    next
      case True
      then have "fs_get f' p \<noteq> fs_get fa p" using ne by simp
      then have "p \<in> (\<lambda>y. ?dd @ [y]) ` set files"
        using copy_matching_other [OF copy(4) readdir_good [OF copy(3) nfa]] by blast
      then show ?thesis by auto
    qed
  qed
  show "fs_get f' (B @ [''dist'', ''assets'', ''dictionaries'', x]) = Some (File c)"
    if fd: "find (existsSync f) (dict_candidates (B @ [''scripts''])) = Some d"
      and src: "fs_get f (d @ [x]) = Some (File c)" and ext: "endsWith x ''.txt''"
    using cases
  proof cases
    case none
    then show ?thesis using fd by simp
  next
    case (copy d0 fa files)
    have d0: "d0 = d" using copy(1) fd by simp
    have nfa: "names_ok fa" using ensure_dir_names_ok [OF copy(2) na] B by simp
    have srca: "fs_get fa (d @ [x]) = Some (File c)" using ensure_dir_keeps [OF copy(2)] src by simp
    have "x \<in> set files" using readdir_lists [OF copy(3)] srca d0 by simp
    moreover have "length d \<noteq> length ?dd"
      using find_Some_set [OF fd] by (auto simp: script_paths)
    then have "d \<noteq> ?dd" by blast
    ultimately show ?thesis
      using copy_matching_copies [OF copy(4) readdir_good [OF copy(3) nfa] _ ext] srca d0 by simp
  qed
qed

text \<open>The source dictionaries and the repository-root tree lie outside \<open>B/dist\<close>.\<close>

lemma dist_apart:
  "\<not> prefix (butlast B @ [''assets'', ''dictionaries'']) (B @ [''dist'', ''config''])"
  "\<not> prefix (butlast B @ [''assets'', ''dictionaries'', ''words.txt'']) (B @ [''dist'', ''config''])"
  "\<not> prefix (butlast B @ [''assets'', ''dictionaries'', ''words.txt'']) (B @ [''dist''])"
  "\<not> prefix (B @ [''dist'']) (butlast B @ [''assets'', ''dictionaries'', ''words.txt''])"
  "butlast B @ [''assets'', ''dictionaries''] \<noteq> B @ [''dist'', ''config'', y]"
  "butlast B @ [''assets'', ''dictionaries'', ''words.txt''] \<noteq> B @ [''dist'', ''config'', y]"
  by (cases B rule: rev_exhaust; simp)+

text \<open>The script keeps the tree well formed: a directory is created only inside an
  existing one, and a file never replaces a directory.\<close>

lemma wf_update:
  assumes wf: "wf_fs f" and k: "k \<noteq> []" "fs_get f (butlast k) = Some Dir" "list_all good_name k"
    and v: "v = Dir \<or> fs_get f k \<noteq> Some Dir"
  shows "wf_fs (AList.update k v f)"
proof -
  have d: "distinct (map fst f)" using wf by (simp add: wf_fs_def)
  have old: "p \<noteq> [] \<and> fs_get f (butlast p) = Some Dir \<and> list_all good_name p" if "(p, n) \<in> set f" for p n
    using wf that unfolding wf_fs_def list_all_iff by fastforce
  have "fs_get (AList.update k v f) (butlast p) = Some Dir \<and> p \<noteq> [] \<and> list_all good_name p"
    if "(p, n) \<in> set (AList.update k v f)" for p n
  proof -
    have "(p, n) = (k, v) \<or> ((p, n) \<in> set f \<and> p \<noteq> k)"
      using that set_alist_update_distinct [OF d] by auto
    then show ?thesis
    proof
      assume "(p, n) = (k, v)"
      moreover have "butlast k \<noteq> k" using k(1) by (cases k rule: rev_exhaust) auto
      ultimately show ?thesis using k by (auto simp: fs_get_update)
    next
      assume pn: "(p, n) \<in> set f \<and> p \<noteq> k"
      then have o: "p \<noteq> [] \<and> fs_get f (butlast p) = Some Dir \<and> list_all good_name p" using old by blast
      then show ?thesis using v by (auto simp: fs_get_update)
    qed
  qed
  then show ?thesis using d by (auto simp: wf_fs_def list_all_iff distinct_update)
qed

lemma mkdirs_wf:
  "mkdirs cur ss f = Inr f' \<Longrightarrow> wf_fs f \<Longrightarrow> fs_get f cur = Some Dir \<Longrightarrow>
   list_all good_name (cur @ ss) \<Longrightarrow> wf_fs f'"
proof (induction cur ss f rule: mkdirs.induct)
  case (2 cur s ss f)
  show ?case
  proof (cases "fs_get f (cur @ [s])")
    case None
    then have "wf_fs (AList.update (cur @ [s]) Dir f)"
      using wf_update [OF "2.prems"(2)] "2.prems"(3,4) by simp
    moreover have "fs_get (AList.update (cur @ [s]) Dir f) (cur @ [s]) = Some Dir" by (simp add: fs_get_update)
    ultimately show ?thesis using "2.IH"(1) [OF None] "2.prems" None by simp
  next
    case (Some n)
    then show ?thesis using "2.IH"(2) "2.prems" by (cases n) auto
  qed
qed simp

lemma ensure_dir_wf:
  "ensure_dir d f = Inr f' \<Longrightarrow> wf_fs f \<Longrightarrow> list_all good_name d \<Longrightarrow> wf_fs f'"
  using mkdirs_wf [of "[]" d f f'] by (auto simp: ensure_dir_def mkdirSync_def split: if_splits)

lemma copy_matching_wf:
  "copy_matching ext sd dd xs f = Inr f' \<Longrightarrow> list_all good_name xs \<Longrightarrow> list_all good_name dd \<Longrightarrow>
   wf_fs f \<Longrightarrow> wf_fs f'"
proof (induction ext sd dd xs f rule: copy_matching.induct)
  case (2 ext sd dd x xs f)
  show ?case
  proof (cases "endsWith x ext")
    case True
    then obtain f1 where c: "copyFileSync (sd @ [x]) (dd @ [x]) f = Inr f1"
      and r: "copy_matching ext sd dd xs f1 = Inr f'"
      using "2.prems" by (auto split: sum.splits)
    have "wf_fs f1"
      using copyFileSync_Inr [OF c] wf_update [OF "2.prems"(4)] "2.prems"(2,3) by fastforce
    then show ?thesis using "2.IH"(1) [OF True _ r] c "2.prems" by simp
  next
    case False
    then show ?thesis using "2.IH"(2) "2.prems" by simp
  qed
qed simp

lemma copy_config_wf:
  assumes run: "copy_config (B @ [''scripts'']) f = Inr f1" and wf: "wf_fs f" and B: "list_all good_name B"
  shows "wf_fs f1"
proof -
  obtain fa where ea: "ensure_dir (B @ [''dist'', ''config'']) f = Inr fa"
    and rest: "(if existsSync fa (B @ [''src'', ''config'']) then
                 (case readdirSync fa (B @ [''src'', ''config'']) of
                    Inl e \<Rightarrow> Inl e
                  | Inr files \<Rightarrow> copy_matching ''.json'' (B @ [''src'', ''config'']) (B @ [''dist'', ''config'']) files fa)
               else Inr fa) = Inr f1"
    using run by (auto simp: copy_config_def script_paths Let_def split: sum.splits)
  have wa: "wf_fs fa" using ensure_dir_wf [OF ea wf] B by simp
  show ?thesis
  proof (cases "existsSync fa (B @ [''src'', ''config''])")
    case True
    then obtain files where rd: "readdirSync fa (B @ [''src'', ''config'']) = Inr files"
      and cp: "copy_matching ''.json'' (B @ [''src'', ''config'']) (B @ [''dist'', ''config'']) files fa = Inr f1"
      using rest by (auto split: sum.splits)
    show ?thesis
      using copy_matching_wf [OF cp readdir_good [OF rd wf_names_ok [OF wa]] _ wa] B by simp
  next
    case False
    then show ?thesis using rest wa by simp
  qed
qed

lemma copy_dictionaries_wf:
  assumes run: "copy_dictionaries (B @ [''scripts'']) f = Inr f'" and wf: "wf_fs f" and B: "list_all good_name B"
  shows "wf_fs f'"
proof (cases "find (existsSync f) (dict_candidates (B @ [''scripts'']))")
  case None
  then show ?thesis using run wf by (simp add: copy_dictionaries_def Let_def)
next
  case (Some d)
  then obtain fa files where ea: "ensure_dir (B @ [''dist'', ''assets'', ''dictionaries'']) f = Inr fa"
    and rd: "readdirSync fa d = Inr files"
    and cp: "copy_matching ''.txt'' d (B @ [''dist'', ''assets'', ''dictionaries'']) files fa = Inr f'"
    using run by (auto simp: copy_dictionaries_def script_paths Let_def split: sum.splits)
  have wa: "wf_fs fa" using ensure_dir_wf [OF ea wf] B by simp
  show ?thesis
    using copy_matching_wf [OF cp readdir_good [OF rd wf_names_ok [OF wa]] _ wa] B by simp
qed

text \<open>The script succeeds on the scenario's tree, which is well formed.\<close>

lemma demo_build: "\<exists>f'. copy_assets [''app'', ''scripts''] demo_tree = Inr f'"
  by (simp add: copy_assets_def copy_config_def copy_dictionaries_def Let_def ensure_dir_def mkdirSync_def
      readdirSync_def copyFileSync_def existsSync_def fs_get_def path_join_def norm_step_def endsWith_def
      dict_candidates_def demo_tree_def)

lemma demo_tree_wf: "wf_fs demo_tree"
  by (simp add: wf_fs_def demo_tree_def fs_get_def good_name_def)

section \<open>Properties\<close>

text \<open>C37: After a successful run of copy-assets.js from \<open>B/scripts\<close> on a
  well-formed tree, the directory \<open>B/dist\<close> shipped alone gives the compiled server the
  lobby file and the word file of the sources: the \<open>lobbies.json\<close> beside the compiled
  config/lobbies.js and the \<open>words.txt\<close> that \<open>resolveWordsPath\<close> finds from
  dist/services are those of src/config and of the first dictionary directory the
  script finds, so the server loads the same lobby catalogue and builds the same
  dictionary.\<close>

theorem dist_deployment_reads_sources:
  assumes wf: "wf_fs f"
    and run: "copy_assets (B @ [''scripts'']) f = Inr f'"
    and lob: "fs_get f (B @ [''src'', ''config'', ''lobbies.json'']) = Some (File lc)"
    and dict: "find (existsSync f) (dict_candidates (B @ [''scripts''])) = Some d"
    and wds: "fs_get f (d @ [''words.txt'']) = Some (File wc)"
  shows "lobbies_file parse (B @ [''dist'', ''config'']) (deploy_only (B @ [''dist'']) f') = parse lc \<and>
         words_file (B @ [''dist'', ''services'']) cwd (deploy_only (B @ [''dist'']) f') = Some wc \<and>
         loadLobbyConfig (lobbies_file parse (B @ [''dist'', ''config'']) (deploy_only (B @ [''dist'']) f')) =
           loadLobbyConfig (parse lc) \<and>
         initDictionary (words_file (B @ [''dist'', ''services'']) cwd (deploy_only (B @ [''dist'']) f')) None =
           initDictionary (Some wc) None"
proof -
  let ?D = "deploy_only (B @ [''dist'']) f'"
  obtain f1 where c1: "copy_config (B @ [''scripts'']) f = Inr f1"
    and c2: "copy_dictionaries (B @ [''scripts'']) f1 = Inr f'"
    using run by (auto simp: copy_assets_def split: sum.splits)
  have na: "names_ok f" using wf by (rule wf_names_ok)
  have "list_all good_name (B @ [''src'', ''config'', ''lobbies.json''])"
    using names_ok_good [OF na, of "B @ [''src'', ''config'', ''lobbies.json'']" "File lc"] lob
    by (simp add: fs_get_def)
  then have B: "list_all good_name B" by simp
  have na1: "names_ok f1" by (rule copy_config_facts(1) [OF c1 wf na B])
  have l1: "fs_get f1 (B @ [''dist'', ''config'', ''lobbies.json'']) = Some (File lc)"
    using copy_config_facts(3) [OF c1 wf na B lob] by (simp add: endsWith_def)
  have l2: "fs_get f' (B @ [''dist'', ''config'', ''lobbies.json'']) = Some (File lc)"
    using copy_dictionaries_facts(1) [OF c2 na1 B, of "B @ [''dist'', ''config'', ''lobbies.json'']"] l1
    by auto
  have same: "fs_get f1 p = fs_get f p"
    if "p \<in> set (dict_candidates (B @ [''scripts''])) \<or> p = d @ [''words.txt'']" for p
  proof (rule ccontr)
    assume "fs_get f1 p \<noteq> fs_get f p"
    then have "prefix p (B @ [''dist'', ''config'']) \<or> (\<exists>y. p = B @ [''dist'', ''config'', y])"
      by (rule copy_config_facts(2) [OF c1 wf na B])
    moreover have "d \<in> set (dict_candidates (B @ [''scripts'']))" using find_Some_set [OF dict] by simp
    ultimately show False using that dist_apart by (auto simp: script_paths)
  qed
  have dict1: "find (existsSync f1) (dict_candidates (B @ [''scripts''])) = Some d"
    using find_exists_cong [of "dict_candidates (B @ [''scripts''])" f1 f] same dict by simp
  have w2: "fs_get f' (B @ [''dist'', ''assets'', ''dictionaries'', ''words.txt'']) = Some (File wc)"
    using copy_dictionaries_facts(2) [OF c2 na1 B dict1] same [of "d @ [''words.txt'']"] wds
    by (simp add: endsWith_def)
  have lf: "lobbies_file parse (B @ [''dist'', ''config'']) ?D = parse lc"
    using l2 by (simp add: lobbies_file_def script_paths readFileSync_def fs_get_deploy_only)
  have "find (existsSync ?D) (words_candidates (B @ [''dist'', ''services'']) cwd) =
        Some (B @ [''dist'', ''assets'', ''dictionaries'', ''words.txt''])"
    using w2 dist_apart by (simp add: script_paths existsSync_def fs_get_deploy_only)
  then have wf': "words_file (B @ [''dist'', ''services'']) cwd ?D = Some wc"
    using w2 by (simp add: words_file_def resolveWordsPath_def readFileSync_def fs_get_deploy_only)
  show ?thesis using lf wf' by simp
qed

text \<open>A successful run of copy-assets.js keeps the file tree well formed: every
  path appears once, every entry lies in an existing directory, and no file replaces a
  directory.\<close>

lemma copy_assets_wf:
  assumes "wf_fs f" "list_all good_name B" "copy_assets (B @ [''scripts'']) f = Inr f'"
  shows "wf_fs f'"
proof -
  obtain f1 where c1: "copy_config (B @ [''scripts'']) f = Inr f1"
    and c2: "copy_dictionaries (B @ [''scripts'']) f1 = Inr f'"
    using assms(3) by (auto simp: copy_assets_def split: sum.splits)
  show ?thesis using copy_dictionaries_wf [OF c2 copy_config_wf [OF c1 assms(1,2)] assms(2)] .
qed

section \<open>Witnesses\<close>

theorem dist_deployment_reads_sources_witness:
  "\<exists>f'. copy_assets [''app'', ''scripts''] demo_tree = Inr f' \<and>
        words_file [''app'', ''dist'', ''services''] [] (deploy_only [''app'', ''dist''] f') = Some ''CAT'' \<and>
        lobbies_file (\<lambda>s. Some (JStr s)) [''app'', ''dist'', ''config''] (deploy_only [''app'', ''dist''] f') =
          Some (JStr ''{}'')"
proof -
  obtain f' where r: "copy_assets [''app'', ''scripts''] demo_tree = Inr f'" using demo_build by blast
  note wf = demo_tree_wf
  have d: "find (existsSync demo_tree) (dict_candidates ([''app''] @ [''scripts''])) = Some [''app'', ''assets'', ''dictionaries'']"
    by (simp add: dict_candidates_def path_join_def norm_step_def existsSync_def fs_get_def demo_tree_def)
  have l: "fs_get demo_tree ([''app''] @ [''src'', ''config'', ''lobbies.json'']) = Some (File ''{}'')"
    by (simp add: fs_get_def demo_tree_def)
  have w: "fs_get demo_tree ([''app'', ''assets'', ''dictionaries''] @ [''words.txt'']) = Some (File ''CAT'')"
    by (simp add: fs_get_def demo_tree_def)
  show ?thesis
    using dist_deployment_reads_sources [of demo_tree "[''app'']" f' "''{}''" "[''app'', ''assets'', ''dictionaries'']"
        "''CAT''" "\<lambda>s. Some (JStr s)" "[]"] wf r d l w
    by simp
qed

end
