(* ===== verification/Api.thy ===== *)
theory Api
  imports Http Engine DevTools
begin

text \<open>
  The server as its clients see it: the world of theory \<open>Lifecycle\<close> together with the
  user table of theory \<open>Users\<close>, whose accounts are the world's ledger. An HTTP request is
  dispatched by the Express application of theory \<open>Http\<close>. Every route that calls
  \<open>getRequestingUser\<close> (theory \<open>Auth\<close>) resolves the caller first, which in Firebase mode
  creates the account of a new token uid: the GET routes of the matches, users and wallet
  routers, the validate route and \<open>POST /users/username\<close>. A \<open>POST\<close> route of the matches
  router parses its body with the route's zod schema (src/backend/src/modules/matches.ts,
  lines 90-94, 276-278, 326-340 and 729-733) and runs the handler of theory
  \<open>Lifecycle\<close> or \<open>DevTools\<close>; the users router renames the caller or, in dev mode,
  logs in or registers. Every other route only reads the state. The id a new row gets
  and the random scores of \<open>/dev/simulate\<close> come from outside.
\<close>

section \<open>Request bodies\<close>

text \<open>\<open>req.body || {}\<close> read by a zod object: a field \<open>z.string().min(1)\<close>, an optional
  one (\<open>Some None\<close> when absent, \<open>None\<close> when invalid), and \<open>z.array(z.string()).default([])\<close>.\<close>

definition body_field :: "json option \<Rightarrow> string \<Rightarrow> json option" where
  "body_field b k = Option.bind b (\<lambda>j. get_prop j k)"

definition body_str :: "json option \<Rightarrow> string \<Rightarrow> string option" where
  "body_str b k = (case body_field b k of Some (JStr s) \<Rightarrow> if s = [] then None else Some s | _ \<Rightarrow> None)"

definition body_opt_str :: "json option \<Rightarrow> string \<Rightarrow> string option option" where
  "body_opt_str b k =
     (case body_field b k of
        None \<Rightarrow> Some None
      | Some (JStr s) \<Rightarrow> if s = [] then None else Some (Some s)
      | Some _ \<Rightarrow> None)"

definition jstr :: "json \<Rightarrow> string option" where
  "jstr j = (case j of JStr s \<Rightarrow> Some s | _ \<Rightarrow> None)"

definition body_words :: "json option \<Rightarrow> string list option" where
  "body_words b =
     (case body_field b ''words'' of
        None \<Rightarrow> Some []
      | Some (JArr xs) \<Rightarrow> if list_all (\<lambda>x. jstr x \<noteq> None) xs then Some (map (the \<circ> jstr) xs) else None
      | Some _ \<Rightarrow> None)"

text \<open>The schema of \<open>/dev/simulate\<close>, lines 729-733: \<open>numPlayers\<close> an integer, 3 by
  default (its range is checked by \<open>dev_simulate\<close>), \<open>scores\<close> an optional array of
  integers (their sign is checked by \<open>dev_simulate\<close>).\<close>

definition jint :: "json \<Rightarrow> int option" where
  "jint j = (case j of JNum q \<Rightarrow> if of_int \<lfloor>q\<rfloor> = q then Some \<lfloor>q\<rfloor> else None | _ \<Rightarrow> None)"

definition body_sim ::
  "json option \<Rightarrow> (lobby_type \<times> nat \<times> int list option) option" where
  "body_sim b =
     (case (body_field b ''lobbyType'', body_field b ''numPlayers'', body_field b ''scores'') of
        (Some (JStr lt), n, s) \<Rightarrow>
          (let n' = (case n of None \<Rightarrow> Some 3 | Some j \<Rightarrow> map_option nat (jint j));
               s' = (case s of
                       None \<Rightarrow> Some None
                     | Some (JArr xs) \<Rightarrow>
                         if list_all (\<lambda>x. jint x \<noteq> None) xs then Some (Some (map (the \<circ> jint) xs)) else None
                     | Some _ \<Rightarrow> None)
           in case (n', s') of (Some k, Some sc) \<Rightarrow> Some (lt, k, sc) | _ \<Rightarrow> None)
      | _ \<Rightarrow> None)"

section \<open>The POST routes of the matches router\<close>

text \<open>A failed parse answers 400 and changes nothing; \<open>rest\<close> is the path after
  \<open>/matches\<close>, whose first segment is the \<open>:matchId\<close> of the routes that have one.\<close>

definition matches_post ::
  "env \<Rightarrow> lobbies \<Rightarrow> string option \<Rightarrow> ms \<Rightarrow> (nat \<Rightarrow> int) \<Rightarrow> user_id option \<Rightarrow> seg list \<Rightarrow>
   string list \<Rightarrow> json option \<Rightarrow> world \<Rightarrow> world" where
  "matches_post e cfgs fc now rnd caller pat rest body w =
     (if pat = [Lit ''join''] then
        (case (body_str body ''lobbyType'', body_str body ''userId'', body_opt_str body ''playerName'') of
           (Some lt, Some u, Some nm) \<Rightarrow> snd (join cfgs now lt u nm w)
         | _ \<Rightarrow> w)
      else if pat = [Lit ''leave''] then
        (case body_str body ''userId'' of Some u \<Rightarrow> snd (leave u w) | None \<Rightarrow> w)
      else if pat = [Param, Lit ''save-words''] then
        (case (body_str body ''userId'', body_words body) of
           (Some u, Some ws) \<Rightarrow> snd (saveWords (hd rest) u ws w)
         | _ \<Rightarrow> w)
      else if pat = [Param, Lit ''validate''] then
        (case (body_opt_str body ''userId'', body_str body ''word'', caller) of
           (Some _, Some wd, Some u) \<Rightarrow> snd (validateWord fc (hd rest) u wd w)
         | _ \<Rightarrow> w)
      else if pat = [Param, Lit ''words''] then
        (case (body_str body ''userId'', body_words body) of
           (Some u, Some ws) \<Rightarrow> snd (submit fc cfgs now (hd rest) u ws w)
         | _ \<Rightarrow> w)
      else if pat = [Lit ''dev'', Lit ''simulate''] then
        (case body_sim body of
           Some (lt, n, sc) \<Rightarrow> snd (dev_simulate e cfgs now rnd lt n sc w)
         | None \<Rightarrow> w)
      else w)"

text \<open>The state of the server: the world and the rows of the user table.\<close>

record server =
  sv_world :: world
  sv_users :: "(user_id \<times> user_row) list"

definition sv_db :: "server \<Rightarrow> user_db" where
  "sv_db s = \<lparr>ud_rows = sv_users s, ud_ledger = w_ledger (sv_world s)\<rparr>"

definition sv_put :: "user_db \<Rightarrow> server \<Rightarrow> server" where
  "sv_put db s = \<lparr>sv_world = (sv_world s)\<lparr>w_ledger := ud_ledger db\<rparr>, sv_users = ud_rows db\<rparr>"

text \<open>The routes that call \<open>getRequestingUser\<close>: matches.ts lines 374, 510, 550 and 630,
  users.ts lines 45, 80 and 179, wallet.ts line 49.\<close>

definition resolves_caller :: "string \<Rightarrow> http_method \<Rightarrow> seg list \<Rightarrow> bool" where
  "resolves_caller rn m pat \<longleftrightarrow>
     (rn = ''matches'' \<and> (m = GET \<or> pat = [Param, Lit ''validate''])) \<or>
     (rn = ''users'' \<and> (m = GET \<or> pat = [Lit ''username''])) \<or> rn = ''wallet''"

text \<open>\<open>SetUsernameSchema\<close>, users.ts lines 66-70, on \<open>req.body\<close>.\<close>

definition body_username :: "json option \<Rightarrow> string option" where
  "body_username b =
     (case body_field b ''username'' of
        Some (JStr n) \<Rightarrow> if n = [] \<or> 20 < length n then None else Some n
      | _ \<Rightarrow> None)"

text \<open>The validate route and the rename parse the body before they resolve the caller
  (matches.ts line 367, users.ts line 73): a body that fails answers 400 first.\<close>

definition parse_first :: "string \<Rightarrow> http_method \<Rightarrow> seg list \<Rightarrow> json option \<Rightarrow> bool" where
  "parse_first rn m pat body =
     (if rn = ''matches'' \<and> m = POST \<and> pat = [Param, Lit ''validate'']
      then body_opt_str body ''userId'' \<noteq> None \<and> body_str body ''word'' \<noteq> None
      else if rn = ''users'' \<and> m = POST \<and> pat = [Lit ''username''] then body_username body \<noteq> None
      else True)"

text \<open>What a route does to the state once the caller, if it needs one, is known.\<close>

definition route_effect ::
  "env \<Rightarrow> lobbies \<Rightarrow> string option \<Rightarrow> ms \<Rightarrow> (nat \<Rightarrow> int) \<Rightarrow> user_id \<Rightarrow> string \<Rightarrow> http_method \<Rightarrow>
   seg list \<Rightarrow> string list \<Rightarrow> json option \<Rightarrow> user_id option \<Rightarrow> server \<Rightarrow> server" where
  "route_effect e cfgs fc now rnd fresh rn m pat rest body caller s =
     (if rn = ''matches'' \<and> m = POST
      then s\<lparr>sv_world := matches_post e cfgs fc now rnd caller pat rest body (sv_world s)\<rparr>
      else if rn = ''users'' \<and> m = POST \<and> pat = [Lit ''username'']
      then (case (caller, body_username body) of
              (Some u, Some n) \<Rightarrow> sv_put (snd (rename_user u n (sv_db s))) s
            | _ \<Rightarrow> s)
      else if rn = ''users'' \<and> m = POST \<and> pat = [Lit ''login-or-register'']
      then sv_put (snd (loginOrRegister e body fresh (sv_db s))) s
      else s)"

text \<open>One HTTP request: the application's dispatch, the caller's resolution where the route
  asks for it (an exception there answers 500 and ends the request), then the route.\<close>

definition api_request ::
  "env \<Rightarrow> (string \<Rightarrow> string option) \<Rightarrow> lobbies \<Rightarrow> string option \<Rightarrow> ms \<Rightarrow> (nat \<Rightarrow> int) \<Rightarrow> user_id \<Rightarrow>
   string option \<Rightarrow> http_method \<Rightarrow> string list \<Rightarrow> json option \<Rightarrow> json option \<Rightarrow> server \<Rightarrow> server" where
  "api_request e ck cfgs fc now rnd fresh h m p query body s =
     (case serve_http e ck h m p of
        Answered (Routed rn m' pat) ru \<Rightarrow>
          (if resolves_caller rn m' pat \<and> parse_first rn m' pat body
           then (case ru of
                   None \<Rightarrow> s
                 | Some r \<Rightarrow>
                     (case getRequestingUser e \<lparr>c_user = r, c_bodyUserId = body_field body ''userId'',
                                                c_queryUserId = query\<rparr> fresh (sv_db s) of
                        (Inl _, db1) \<Rightarrow> sv_put db1 s
                      | (Inr u, db1) \<Rightarrow> route_effect e cfgs fc now rnd fresh rn m' pat (drop 1 p) body (Some u) (sv_put db1 s)))
           else route_effect e cfgs fc now rnd fresh rn m' pat (drop 1 p) body None s)
      | _ \<Rightarrow> s)"

section \<open>Scenario\<close>

text \<open>A join request for Bob, of theory \<open>Ledger\<close>'s ledger, in the classic lobby, on a
  fresh server with an empty user table.\<close>

definition demo_body :: json where
  "demo_body = JObj [(''lobbyType'', JStr ''classic''), (''userId'', JStr ''bob'')]"

definition demo_server :: server where
  "demo_server = \<lparr>sv_world = start demo_ledger, sv_users = []\<rparr>"

section \<open>Lemmas\<close>

text \<open>Each state-changing route of the matches router runs one request of theory \<open>Engine\<close>.\<close>

lemma serve_eqs:
  "snd (join cfgs now lt u nm w) = serve cfgs fc (Join now lt u nm) w"
  "snd (leave u w) = serve cfgs fc (Leave u) w"
  "snd (saveWords mid u ws w) = serve cfgs fc (SaveWords mid u ws) w"
  "snd (validateWord fc mid u wd w) = serve cfgs fc (Validate mid u wd) w"
  "snd (submit fc cfgs now mid u ws w) = serve cfgs fc (Submit now mid u ws) w"
  by (simp_all add: serve_def)

text \<open>The join route under a verified token.\<close>

lemma serve_http_join:
  assumes "authFirebase e ck (server_fb e) h = Done v"
  shows "serve_http e ck h POST [''matches'', ''join''] = Answered (Routed ''matches'' POST [Lit ''join'']) (Some v)"
  using assms
  by (simp add: serve_http_def app_layers_def matches_routes_def lobbies_routes_def boards_routes_def
      find_route_def lower_eval)

text \<open>The profile route under a verified token.\<close>

lemma serve_http_me:
  assumes "authFirebase e ck (server_fb e) h = Done v"
  shows "serve_http e ck h GET [''users'', ''me''] = Answered (Routed ''users'' GET [Lit ''me'']) (Some v)"
  using assms
  by (simp add: serve_http_def app_layers_def matches_routes_def lobbies_routes_def boards_routes_def
      validate_routes_def users_routes_def find_route_def lower_eval)

lemma demo_token: "authFirebase demo_env demo_check (server_fb demo_env) (Some ''Bearer tok-a'') = Done (TokenUser ''uid-a'')"
proof -
  have "\<not> isDevAuth demo_env" using demo_env_mode by (simp add: isDevAuth_def)
  then show ?thesis
    by (simp add: authFirebase_def verifyIdToken_def demo_check_def server_fb_def initFirebase_def
        env_set_def demo_env_def)
qed

lemma demo_body_fields:
  "body_str (Some demo_body) ''lobbyType'' = Some ''classic''"
  "body_str (Some demo_body) ''userId'' = Some ''bob''"
  "body_opt_str (Some demo_body) ''playerName'' = Some None"
  by (simp_all add: body_str_def body_opt_str_def body_field_def get_prop_def demo_body_def)

section \<open>Properties\<close>

text \<open>C12: The join route acts for the user named in the request body, not for
  the caller: under any verified token, \<open>POST /matches/join\<close> runs the engine's join of
  the body's \<open>userId\<close> and leaves the user table as it is, so a client can seat another
  user and spend that user's gems. The leave, save-words and submit routes take the body's
  \<open>userId\<close> in the same way.\<close>

theorem join_acts_for_body_user:
  assumes "authFirebase e ck (server_fb e) h = Done v"
    and "body_str body ''lobbyType'' = Some lt" "body_str body ''userId'' = Some u"
    and "body_opt_str body ''playerName'' = Some nm"
  shows "sv_world (api_request e ck cfgs fc now rnd fresh h POST [''matches'', ''join''] q body s) =
           serve cfgs fc (Join now lt u nm) (sv_world s) \<and>
         sv_users (api_request e ck cfgs fc now rnd fresh h POST [''matches'', ''join''] q body s) = sv_users s"
  using serve_http_join [OF assms(1)] assms(2-4)
  by (simp add: api_request_def resolves_caller_def route_effect_def matches_post_def
      serve_eqs [where fc = fc and cfgs = cfgs])

text \<open>C11: A read of the profile is not free of effects: in Firebase mode the
  first \<open>GET /users/me\<close> of a verified token whose uid has no user creates that user's row
  and an account of 100 gems and no bonus gems; it writes no journal row and changes no
  match.\<close>

theorem get_me_creates_account:
  assumes "authFirebase e ck (server_fb e) h = Done (TokenUser a)" "\<not> isDevAuth e"
    and "find_by_authUid a (sv_db s) = None" "fresh \<notin> fst ` set (sv_users s)"
  shows "sv_users (api_request e ck cfgs fc now rnd fresh h GET [''users'', ''me''] q body s) =
           sv_users s @ [(fresh, \<lparr>usr_authUid = Some a, usr_username = None\<rparr>)] \<and>
         accounts (w_ledger (sv_world (api_request e ck cfgs fc now rnd fresh h GET [''users'', ''me''] q body s)))
           fresh = Some \<lparr>gemBalance = 100, bonusGems = 0\<rparr> \<and>
         txns (w_ledger (sv_world (api_request e ck cfgs fc now rnd fresh h GET [''users'', ''me''] q body s))) =
           txns (w_ledger (sv_world s)) \<and>
         w_store (sv_world (api_request e ck cfgs fc now rnd fresh h GET [''users'', ''me''] q body s)) =
           w_store (sv_world s)"
proof -
  have c: "getOrCreateUserByAuthUid a fresh (sv_db s) =
             (Inr fresh, \<lparr>ud_rows = sv_users s @ [(fresh, \<lparr>usr_authUid = Some a, usr_username = None\<rparr>)],
                          ud_ledger = (w_ledger (sv_world s))\<lparr>accounts := (accounts (w_ledger (sv_world s)))
                            (fresh \<mapsto> \<lparr>gemBalance = 100, bonusGems = 0\<rparr>)\<rparr>\<rparr>)"
    using assms(3,4) by (simp add: getOrCreateUserByAuthUid_def user_create_def has_id_iff sv_db_def)
  show ?thesis
    using serve_http_me [OF assms(1)] assms(2) c
    by (simp add: api_request_def resolves_caller_def parse_first_def route_effect_def
        getRequestingUser_def sv_put_def)
qed

section \<open>Witnesses\<close>

theorem join_acts_for_body_user_witness:
  "authFirebase demo_env demo_check (server_fb demo_env) (Some ''Bearer tok-a'') = Done (TokenUser ''uid-a'') \<and>
   body_str (Some demo_body) ''lobbyType'' = Some ''classic'' \<and>
   body_str (Some demo_body) ''userId'' = Some ''bob'' \<and>
   body_opt_str (Some demo_body) ''playerName'' = Some None \<and>
   sv_world (api_request demo_env demo_check demo_cfgs None 1000 (\<lambda>_. 0) ''x'' (Some ''Bearer tok-a'') POST
     [''matches'', ''join''] None (Some demo_body) demo_server) =
   serve demo_cfgs None (Join 1000 ''classic'' ''bob'' None) (sv_world demo_server) \<and>
   sv_users (api_request demo_env demo_check demo_cfgs None 1000 (\<lambda>_. 0) ''x'' (Some ''Bearer tok-a'') POST
     [''matches'', ''join''] None (Some demo_body) demo_server) = sv_users demo_server"
  using join_acts_for_body_user [OF demo_token demo_body_fields, where cfgs = demo_cfgs and fc = None and
      now = 1000 and rnd = "\<lambda>_. 0" and fresh = "''x''" and q = None and s = demo_server]
    demo_token demo_body_fields by blast

theorem get_me_creates_account_witness:
  "authFirebase demo_env demo_check (server_fb demo_env) (Some ''Bearer tok-a'') = Done (TokenUser ''uid-a'') \<and>
   \<not> isDevAuth demo_env \<and> find_by_authUid ''uid-a'' (sv_db demo_server) = None \<and>
   ''carol'' \<notin> fst ` set (sv_users demo_server) \<and>
   accounts (w_ledger (sv_world (api_request demo_env demo_check demo_cfgs None 1000 (\<lambda>_. 0) ''carol''
     (Some ''Bearer tok-a'') GET [''users'', ''me''] None None demo_server))) ''carol'' =
     Some \<lparr>gemBalance = 100, bonusGems = 0\<rparr>"
proof -
  have h: "\<not> isDevAuth demo_env" "find_by_authUid ''uid-a'' (sv_db demo_server) = None"
    "''carol'' \<notin> fst ` set (sv_users demo_server)"
    using demo_env_mode
    by (simp_all add: isDevAuth_def find_by_authUid_def sv_db_def demo_server_def)
  show ?thesis
    using get_me_creates_account [OF demo_token h, where cfgs = demo_cfgs and fc = None and now = 1000 and
        rnd = "\<lambda>_. 0" and q = None and body = None] demo_token h by blast
qed

end
