(* ===== verification/Concurrency.thy ===== *)
theory Concurrency
  imports Engine
begin

text \<open>
  The join handler of src/backend/src/modules/matches.ts (lines 139-275) as Node runs
  it: an \<open>async\<close> function that is suspended at each \<open>await\<close> while other requests run.
  A join in progress is a thread: its arguments and the point at which it waits. One
  step of a thread runs the awaited call on the shared world and then the synchronous
  code up to the next \<open>await\<close>: \<open>repo().listByUser\<close> with the active-match check (lines
  151-175), \<open>repo().listAll\<close> with the search for a free seat or the construction of a
  new match (lines 178-250), \<open>tryDebitUser\<close> with the seat it adds (lines 191-211 and
  252-259), and \<open>repo().save\<close> (lines 213 and 262). A repository call and a ledger
  transaction are atomic; the other handlers and the tick stay single steps of
  \<open>Engine.serve\<close>. The concurrent server is the interleaving of these steps.
\<close>

section \<open>A join suspended at its awaits\<close>

datatype join_pc =
    JStart
  | JNoActive
  | JPayExisting internal_match
  | JPayNew internal_match
  | JSave internal_match
  | JDone "client_view reply"

record jthread =
  jt_now :: ms
  jt_lt :: lobby_type
  jt_u :: user_id
  jt_name :: "string option"
  jt_pc :: join_pc

definition jthread_new :: "ms \<Rightarrow> lobby_type \<Rightarrow> user_id \<Rightarrow> string option \<Rightarrow> jthread" where
  "jthread_new now lt u nameOpt = \<lparr>jt_now = now, jt_lt = lt, jt_u = u, jt_name = nameOpt, jt_pc = JStart\<rparr>"

text \<open>One step of a join: the awaited call and the code that follows it.\<close>

definition jstep :: "lobbies \<Rightarrow> jthread \<Rightarrow> world \<Rightarrow> jthread \<times> world" where
  "jstep cfgs t w =
     (let now = jt_now t; lt = jt_lt t; u = jt_u t; nameOpt = jt_name t;
          playerName = (case nameOpt of None \<Rightarrow> ''Player'' | Some n \<Rightarrow> n);
          st = w_store w
      in case jt_pc t of
           JStart \<Rightarrow>
             (if lt = [] \<or> u = [] \<or> nameOpt = Some [] then (t\<lparr>jt_pc := JDone (Failure 400 ''Invalid request data'')\<rparr>, w)
              else case find (active_for u) (listByUser st u) of
                     Some am \<Rightarrow>
                       (if lobbyType am = lt then (t\<lparr>jt_pc := JDone (Reply (toClientMatch am u now))\<rparr>, w)
                        else (t\<lparr>jt_pc := JDone (Conflict (toClientMatch am u now))\<rparr>, w))
                   | None \<Rightarrow> (t\<lparr>jt_pc := JNoActive\<rparr>, w))
         | JNoActive \<Rightarrow>
             (case find (joinable cfgs lt u) (listAll st) of
                Some m \<Rightarrow> (t\<lparr>jt_pc := JPayExisting m\<rparr>, w)
              | None \<Rightarrow>
                  (case cfgs lt of
                     None \<Rightarrow> (t\<lparr>jt_pc := JDone (Failure 400 ''Invalid lobby type'')\<rparr>, w)
                   | Some cfg \<Rightarrow> (t\<lparr>jt_pc := JPayNew (fresh_match cfg lt u playerName now)\<rparr>, w)))
         | JPayExisting m \<Rightarrow>
             (let (ok, l') = tryDebitUser u (cfg_or cfgs lt cfg_entryFee 100) (Some (match_id m)) (Some lt) (w_ledger w)
              in if \<not> ok then (t\<lparr>jt_pc := JDone (Failure 402 ''insufficient funds'')\<rparr>, w\<lparr>w_ledger := l'\<rparr>)
                 else (t\<lparr>jt_pc := JSave (m\<lparr>players := players m @
                          [new_player u playerName now (now + cfg_or cfgs lt cfg_gameDuration 300 * 1000) True]\<rparr>)\<rparr>,
                       w\<lparr>w_ledger := l'\<rparr>))
         | JPayNew m \<Rightarrow>
             (let (paid, l') = tryDebitUser u (entryFee m) (Some (match_id m)) (Some lt) (w_ledger w)
              in if \<not> paid then (t\<lparr>jt_pc := JDone (Failure 402 ''insufficient funds'')\<rparr>, w\<lparr>w_ledger := l'\<rparr>)
                 else (t\<lparr>jt_pc := JSave (m\<lparr>players := map (\<lambda>p. p\<lparr>paidEntry := True\<rparr>) (players m)\<rparr>)\<rparr>,
                       w\<lparr>w_ledger := l'\<rparr>))
         | JSave m \<Rightarrow> (t\<lparr>jt_pc := JDone (Reply (toClientMatch m u now))\<rparr>, w\<lparr>w_store := repo_save m st\<rparr>)
         | JDone r \<Rightarrow> (t, w))"



section \<open>The concurrent server\<close>

text \<open>The state: the world and the joins that have arrived, in the order of arrival; a
  finished join keeps its answer.\<close>

record csys =
  c_world :: world
  c_threads :: "jthread list"

text \<open>A join arrives; a waiting join resumes; any other request runs as one step.\<close>

inductive cstep :: "lobbies \<Rightarrow> string option \<Rightarrow> csys \<Rightarrow> csys \<Rightarrow> bool" for cfgs fc where
  c_arrive: "cstep cfgs fc s (s\<lparr>c_threads := c_threads s @ [jthread_new now lt u nameOpt]\<rparr>)"
| c_resume: "i < length (c_threads s) \<Longrightarrow> jstep cfgs (c_threads s ! i) (c_world s) = (t', w') \<Longrightarrow>
    cstep cfgs fc s \<lparr>c_world = w', c_threads = (c_threads s)[i := t']\<rparr>"
| c_atomic: "\<not> is_join r \<Longrightarrow> cstep cfgs fc s (s\<lparr>c_world := serve cfgs fc r (c_world s)\<rparr>)"

definition cstart :: "ledger \<Rightarrow> csys" where
  "cstart l = \<lparr>c_world = start l, c_threads = []\<rparr>"

inductive creach :: "lobbies \<Rightarrow> string option \<Rightarrow> csys \<Rightarrow> bool" for cfgs fc where
  creach_start: "creach cfgs fc (cstart l)"
| creach_step: "creach cfgs fc s \<Longrightarrow> cstep cfgs fc s s' \<Longrightarrow> creach cfgs fc s'"

section \<open>Scenarios\<close>

text \<open>Two lobbies with an entry fee of 50 gems each, which Alice of theory \<open>Ledger\<close> can
  both afford.\<close>

definition demo_two :: lobbies where
  "demo_two t =
     (if t = ''classic'' then Some (demo_cfg\<lparr>cfg_entryFee := 50\<rparr>)
      else if t = ''blitz'' then Some (demo_cfg\<lparr>cfg_lobbyType := ''blitz'', cfg_entryFee := 50\<rparr>)
      else None)"

text \<open>The demo world of theory \<open>Lifecycle\<close>, whose classic match has Alice and one free
  seat, with two more users, Carol and Dave, of 100 gems each.\<close>

definition race_world :: world where
  "race_world =
     demo_world\<lparr>w_ledger := \<lparr>accounts = (accounts demo_ledger)(''carol'' \<mapsto> \<lparr>gemBalance = 100, bonusGems = 0\<rparr>,
                                                       ''dave'' \<mapsto> \<lparr>gemBalance = 100, bonusGems = 0\<rparr>),
                              txns = []\<rparr>\<rparr>"

section \<open>Invariant\<close>

text \<open>What a join in progress holds between its steps: the match it is about to pay for
  or to save satisfies the per-match invariant of theory \<open>Engine\<close>, except that the new
  seat is not yet paid.\<close>

definition thread_ok :: "lobbies \<Rightarrow> ledger \<Rightarrow> jthread \<Rightarrow> bool" where
  "thread_ok cfgs l t =
     (case jt_pc t of
        JStart \<Rightarrow> True
      | JNoActive \<Rightarrow> jt_u t \<noteq> []
      | JPayExisting m \<Rightarrow> jt_u t \<noteq> [] \<and> joinable cfgs (jt_lt t) (jt_u t) m \<and> match_ok cfgs l m
      | JPayNew m \<Rightarrow>
          jt_u t \<noteq> [] \<and>
          (case cfgs (jt_lt t) of
             None \<Rightarrow> False
           | Some cfg \<Rightarrow> m = fresh_match cfg (jt_lt t) (jt_u t)
                            (case jt_name t of None \<Rightarrow> ''Player'' | Some n \<Rightarrow> n) (jt_now t))
      | JSave m \<Rightarrow> match_ok cfgs l m
      | JDone r \<Rightarrow> True)"

definition csys_inv :: "lobbies \<Rightarrow> csys \<Rightarrow> bool" where
  "csys_inv cfgs s \<longleftrightarrow>
     store_inv cfgs (c_world s) \<and> list_all (thread_ok cfgs (w_ledger (c_world s))) (c_threads s)"

section \<open>Lemmas\<close>

lemma jstep_Done [simp]: "jt_pc t = JDone r \<Longrightarrow> jstep cfgs t w = (t, w)"
  by (simp add: jstep_def)




text \<open>Runs of the concurrent server, step by step.\<close>

lemma rt_resume:
  assumes "(cstep cfgs fc)\<^sup>*\<^sup>* s0 s" "i < length (c_threads s)" "jstep cfgs (c_threads s ! i) (c_world s) = (t', w')"
  shows "(cstep cfgs fc)\<^sup>*\<^sup>* s0 \<lparr>c_world = w', c_threads = (c_threads s)[i := t']\<rparr>"
  using assms by (blast intro: rtranclp.rtrancl_into_rtrancl c_resume)

lemma rt_arrive:
  "(cstep cfgs fc)\<^sup>*\<^sup>* s0 s \<Longrightarrow>
   (cstep cfgs fc)\<^sup>*\<^sup>* s0 (s\<lparr>c_threads := c_threads s @ [jthread_new now lt u nameOpt]\<rparr>)"
  by (blast intro: rtranclp.rtrancl_into_rtrancl c_arrive)

lemma creach_rt: "(cstep cfgs fc)\<^sup>*\<^sup>* s s' \<Longrightarrow> creach cfgs fc s \<Longrightarrow> creach cfgs fc s'"
  by (induction rule: rtranclp_induct) (auto intro: creach_step)

text \<open>A debit that the gem balance covers and whose key is new.\<close>

lemma tryDebitUser_pays:
  assumes "accounts l u = Some a" "0 \<le> amount" "amount \<le> gemBalance a" "\<not> has_key u ''entryFee'' m l"
  shows "tryDebitUser u amount (Some m) lt l =
           (True, book u a (entry_fee_txn u (Some m) lt amount 0) (- amount) 0 l)"
proof -
  have "\<not> list_ex (same_key (entry_fee_txn u (Some m) lt amount 0)) (txns l)"
    using assms(4) by (simp add: same_key_has_key entry_fee_txn_def)
  then show ?thesis
    using assms(1-3)
    by (simp add: tryDebitUser_def run_tx_def debit_body_def debit_split_def tx_create_def
        user_increment_def book_def Let_def min_def)
qed

lemma active_fresh_paid:
  "active_for u ((fresh_match cfg lt u n now)\<lparr>players := map (\<lambda>p. p\<lparr>paidEntry := True\<rparr>) (players (fresh_match cfg lt u n now))\<rparr>)"
  by (simp add: active_for_def find_player_def fresh_match_def new_player_def)

lemma rt_resume_app:
  assumes "(cstep cfgs fc)\<^sup>*\<^sup>* s0 \<lparr>c_world = w, c_threads = ts @ xs\<rparr>" "i < length xs"
    "jstep cfgs (xs ! i) w = (t', w')"
  shows "(cstep cfgs fc)\<^sup>*\<^sup>* s0 \<lparr>c_world = w', c_threads = ts @ xs[i := t']\<rparr>"
  using rt_resume [OF assms(1), of "length ts + i"] assms(2,3) by (simp add: nth_append list_update_append)

lemma find_player_seated:
  "find_player (m\<lparr>players := players m @ [new_player u n t d b]\<rparr>) u \<noteq> None"
  by (simp add: find_player_def find_append new_player_def split: option.split)

lemma find_player_other:
  "v \<noteq> u \<Longrightarrow> find_player (m\<lparr>players := players m @ [new_player u n t d b]\<rparr>) v = find_player m v"
  by (simp add: find_player_def find_append new_player_def split: option.split)

text \<open>Every step of the concurrent server keeps the invariant.\<close>

lemma thread_ok_grows: "thread_ok cfgs l t \<Longrightarrow> grows l l' \<Longrightarrow> thread_ok cfgs l' t"
  by (auto simp: thread_ok_def intro: match_ok_grows split: join_pc.splits)

lemma jstep_inv:
  assumes cok: "cfgs_ok cfgs" and inv: "store_inv cfgs w" and tok: "thread_ok cfgs (w_ledger w) t"
    and st: "jstep cfgs t w = (t', w')"
  shows "store_inv cfgs w' \<and> thread_ok cfgs (w_ledger w') t' \<and> grows (w_ledger w) (w_ledger w')"
proof (cases "jt_pc t")
  case JStart
  have "w' = w \<and> (jt_pc t' = JNoActive \<and> jt_u t' \<noteq> [] \<or> (\<exists>r. jt_pc t' = JDone r))"
    using st JStart by (auto simp: jstep_def Let_def split: option.splits if_splits)
  then show ?thesis using inv by (auto simp: thread_ok_def)
next
  case JNoActive
  then have u: "jt_u t \<noteq> []" using tok by (simp add: thread_ok_def)
  show ?thesis
  proof (cases "find (joinable cfgs (jt_lt t) (jt_u t)) (listAll (w_store w))")
    case (Some m)
    have "m \<in> set (listAll (w_store w))" "joinable cfgs (jt_lt t) (jt_u t) m"
      using find_Some_set [OF Some] by simp_all
    moreover have "w' = w \<and> t' = t\<lparr>jt_pc := JPayExisting m\<rparr>"
      using st JNoActive Some by (simp add: jstep_def Let_def)
    ultimately show ?thesis using u store_invD(1) [OF inv] inv by (simp add: thread_ok_def)
  next
    case None
    then show ?thesis using st JNoActive u inv
      by (auto simp: jstep_def thread_ok_def Let_def split: option.splits)
  qed
next
  case (JPayExisting m)
  then have u: "jt_u t \<noteq> []" and j: "joinable cfgs (jt_lt t) (jt_u t) m" and ok: "match_ok cfgs (w_ledger w) m"
    using tok by (simp_all add: thread_ok_def)
  obtain b l' where d: "tryDebitUser (jt_u t) (cfg_or cfgs (jt_lt t) cfg_entryFee 100) (Some (match_id m)) (Some (jt_lt t)) (w_ledger w) = (b, l')"
    by (cases "tryDebitUser (jt_u t) (cfg_or cfgs (jt_lt t) cfg_entryFee 100) (Some (match_id m)) (Some (jt_lt t)) (w_ledger w)")
  have g: "grows (w_ledger w) l'" using tryDebitUser_grows_eq [OF d] .
  have inv': "store_inv cfgs (w\<lparr>w_ledger := l'\<rparr>)" using store_inv_side [OF inv _ ] g by simp
  show ?thesis
  proof (cases b)
    case False
    then show ?thesis using st JPayExisting d inv' g by (auto simp: jstep_def thread_ok_def Let_def)
  next
    case True
    have key: "has_key (jt_u t) ''entryFee'' (match_id m) l'" using tryDebitUser_True_key d True by simp
    have "match_ok cfgs l' (m\<lparr>players := players m @ [new_player (jt_u t) (case jt_name t of None \<Rightarrow> ''Player'' | Some n \<Rightarrow> n)
             (jt_now t) (jt_now t + cfg_or cfgs (jt_lt t) cfg_gameDuration 300 * 1000) True]\<rparr>)"
      by (rule match_ok_join [OF ok j u g key])
    then show ?thesis using st JPayExisting d True inv' g by (auto simp: jstep_def thread_ok_def Let_def)
  qed
next
  case (JPayNew m)
  then have u: "jt_u t \<noteq> []" using tok by (simp add: thread_ok_def)
  obtain cfg where c: "cfgs (jt_lt t) = Some cfg"
    and m: "m = fresh_match cfg (jt_lt t) (jt_u t) (case jt_name t of None \<Rightarrow> ''Player'' | Some n \<Rightarrow> n) (jt_now t)"
    using tok JPayNew by (auto simp: thread_ok_def split: option.splits)
  obtain b l' where d: "tryDebitUser (jt_u t) (entryFee m) (Some (match_id m)) (Some (jt_lt t)) (w_ledger w) = (b, l')"
    by (cases "tryDebitUser (jt_u t) (entryFee m) (Some (match_id m)) (Some (jt_lt t)) (w_ledger w)")
  have g: "grows (w_ledger w) l'" using tryDebitUser_grows_eq [OF d] .
  have inv': "store_inv cfgs (w\<lparr>w_ledger := l'\<rparr>)" using store_inv_side [OF inv _ ] g by simp
  show ?thesis
  proof (cases b)
    case False
    then show ?thesis using st JPayNew d inv' g by (auto simp: jstep_def thread_ok_def Let_def)
  next
    case True
    have key: "has_key (jt_u t) ''entryFee'' (match_id m) l'" using tryDebitUser_True_key d True by simp
    have "match_ok cfgs l' (m\<lparr>players := map (\<lambda>p. p\<lparr>paidEntry := True\<rparr>) (players m)\<rparr>)"
      using match_ok_fresh [OF cok c u] key unfolding m by simp
    then show ?thesis using st JPayNew d True inv' g by (auto simp: jstep_def thread_ok_def Let_def)
  qed
next
  case (JSave m)
  then have "match_ok cfgs (w_ledger w) m" using tok by (simp add: thread_ok_def)
  then show ?thesis using st JSave store_inv_save [OF inv] by (auto simp: jstep_def thread_ok_def Let_def)
next
  case (JDone r)
  then show ?thesis using st inv tok by simp
qed

lemma cstep_inv:
  assumes cok: "cfgs_ok cfgs" and step: "cstep cfgs fc s s'" and inv: "csys_inv cfgs s"
  shows "csys_inv cfgs s'"
  using step
proof cases
  case (c_arrive now lt u nameOpt)
  then show ?thesis using inv by (simp add: csys_inv_def thread_ok_def jthread_new_def)
next
  case (c_resume i t' w')
  have si: "store_inv cfgs (c_world s)" and ts: "list_all (thread_ok cfgs (w_ledger (c_world s))) (c_threads s)"
    using inv by (simp_all add: csys_inv_def)
  have "thread_ok cfgs (w_ledger (c_world s)) (c_threads s ! i)"
    using ts c_resume(2) by (simp add: list_all_length)
  from jstep_inv [OF cok si this c_resume(3)]
  have r: "store_inv cfgs w'" "thread_ok cfgs (w_ledger w') t'" "grows (w_ledger (c_world s)) (w_ledger w')"
    by simp_all
  have "list_all (thread_ok cfgs (w_ledger w')) ((c_threads s)[i := t'])"
    unfolding list_all_length
  proof (intro allI impI)
    fix n
    assume n: "n < length ((c_threads s)[i := t'])"
    show "thread_ok cfgs (w_ledger w') ((c_threads s)[i := t'] ! n)"
    proof (cases "n = i")
      case True
      then show ?thesis using r(2) c_resume(2) by simp
    next
      case False
      then show ?thesis using thread_ok_grows [OF _ r(3)] ts n by (simp add: list_all_length)
    qed
  qed
  then show ?thesis using c_resume(1) r(1) by (simp add: csys_inv_def)
next
  case (c_atomic r)
  have ix: "index_ok (w_store (c_world s))" using inv by (simp add: csys_inv_def store_inv_def)
  have t: "tame (c_world s) (serve cfgs fc r (c_world s))" using serve_tame [OF c_atomic(2) ix] .
  then show ?thesis
    using c_atomic(1) inv tame_store_inv [OF t] tame_grows [OF t] thread_ok_grows
    by (auto simp: csys_inv_def list_all_iff)
qed

section \<open>Properties\<close>


text \<open>C1: Two joins by one user for two lobbies that overlap both pass the
  active-match check before either saves its match (lines 151-175 read the store, line 262
  writes it only after the debit), so from a fresh server, whenever both lobbies exist and
  the user's gems cover both fees, some interleaving ends with the user debited twice and
  seated, unsubmitted, in two waiting matches: the single-active property of spec section 8
  fails.\<close>

theorem concurrent_joins_double_active:
  assumes c1: "cfgs lt1 = Some c1" and c2: "cfgs lt2 = Some c2"
    and lts: "lt1 \<noteq> lt2" "lt1 \<noteq> []" "lt2 \<noteq> []" and u: "u \<noteq> []"
    and a: "accounts l u = Some a"
    and fees: "0 \<le> cfg_entryFee c1" "0 \<le> cfg_entryFee c2" "cfg_entryFee c1 + cfg_entryFee c2 \<le> gemBalance a"
    and fresh: "\<not> has_key u ''entryFee'' (new_match_id lt1 now) l" "\<not> has_key u ''entryFee'' (new_match_id lt2 now) l"
  shows "\<exists>s. creach cfgs fc s \<and> \<not> single_active (w_store (c_world s)) \<and>
           has_key u ''entryFee'' (new_match_id lt1 now) (w_ledger (c_world s)) \<and>
           has_key u ''entryFee'' (new_match_id lt2 now) (w_ledger (c_world s))"
proof -
  define A where "A = jthread_new now lt1 u None"
  define B where "B = jthread_new now lt2 u None"
  define m1 where "m1 = fresh_match c1 lt1 u ''Player'' now"
  define m2 where "m2 = fresh_match c2 lt2 u ''Player'' now"
  define p1 where "p1 = m1\<lparr>players := map (\<lambda>p. p\<lparr>paidEntry := True\<rparr>) (players m1)\<rparr>"
  define p2 where "p2 = m2\<lparr>players := map (\<lambda>p. p\<lparr>paidEntry := True\<rparr>) (players m2)\<rparr>"
  define w0 where "w0 = start l"
  have ids: "match_id m1 = new_match_id lt1 now" "match_id m2 = new_match_id lt2 now"
    "entryFee m1 = cfg_entryFee c1" "entryFee m2 = cfg_entryFee c2"
    by (simp_all add: m1_def m2_def fresh_match_def)
  have r0: "(cstep cfgs fc)\<^sup>*\<^sup>* (cstart l) \<lparr>c_world = w0, c_threads = []\<rparr>"
    by (simp add: cstart_def w0_def)
  have r2: "(cstep cfgs fc)\<^sup>*\<^sup>* (cstart l) \<lparr>c_world = w0, c_threads = [A, B]\<rparr>"
    using rt_arrive [OF rt_arrive [OF r0, of now lt1 u None], of now lt2 u None]
    by (simp add: A_def B_def)
  have e: "listByUser (w_store w0) u = []" "listAll (w_store w0) = []"
    by (simp_all add: w0_def start_def listByUser_def listAll_def empty_store_def)
  have "jstep cfgs A w0 = (A\<lparr>jt_pc := JNoActive\<rparr>, w0)"
    using lts u e by (simp add: jstep_def A_def jthread_new_def)
  from rt_resume [OF r2, of 0, simplified, OF this]
  have r3: "(cstep cfgs fc)\<^sup>*\<^sup>* (cstart l) \<lparr>c_world = w0, c_threads = [A\<lparr>jt_pc := JNoActive\<rparr>, B]\<rparr>" by simp
  have "jstep cfgs B w0 = (B\<lparr>jt_pc := JNoActive\<rparr>, w0)"
    using lts u e by (simp add: jstep_def B_def jthread_new_def)
  from rt_resume [OF r3, of 1, simplified, OF this]
  have r4: "(cstep cfgs fc)\<^sup>*\<^sup>* (cstart l) \<lparr>c_world = w0, c_threads = [A\<lparr>jt_pc := JNoActive\<rparr>, B\<lparr>jt_pc := JNoActive\<rparr>]\<rparr>"
    by simp
  have "jstep cfgs (A\<lparr>jt_pc := JNoActive\<rparr>) w0 = (A\<lparr>jt_pc := JPayNew m1\<rparr>, w0)"
    using c1 e by (simp add: jstep_def A_def jthread_new_def m1_def)
  from rt_resume [OF r4, of 0, simplified, OF this]
  have r5: "(cstep cfgs fc)\<^sup>*\<^sup>* (cstart l) \<lparr>c_world = w0, c_threads = [A\<lparr>jt_pc := JPayNew m1\<rparr>, B\<lparr>jt_pc := JNoActive\<rparr>]\<rparr>"
    by simp
  have "jstep cfgs (B\<lparr>jt_pc := JNoActive\<rparr>) w0 = (B\<lparr>jt_pc := JPayNew m2\<rparr>, w0)"
    using c2 e by (simp add: jstep_def B_def jthread_new_def m2_def)
  from rt_resume [OF r5, of 1, simplified, OF this]
  have r6: "(cstep cfgs fc)\<^sup>*\<^sup>* (cstart l) \<lparr>c_world = w0, c_threads = [A\<lparr>jt_pc := JPayNew m1\<rparr>, B\<lparr>jt_pc := JPayNew m2\<rparr>]\<rparr>"
    by simp
  define l1 where "l1 = book u a (entry_fee_txn u (Some (match_id m1)) (Some lt1) (cfg_entryFee c1) 0) (- cfg_entryFee c1) 0 l"
  define a1 where "a1 = a\<lparr>gemBalance := gemBalance a + - cfg_entryFee c1, bonusGems := bonusGems a + 0\<rparr>"
  have d1: "tryDebitUser u (entryFee m1) (Some (match_id m1)) (Some lt1) (w_ledger w0) = (True, l1)"
    unfolding l1_def ids using tryDebitUser_pays [OF a fees(1)] fees fresh(1)
    by (simp add: w0_def start_def)
  have "jstep cfgs (A\<lparr>jt_pc := JPayNew m1\<rparr>) w0 = (A\<lparr>jt_pc := JSave p1\<rparr>, w0\<lparr>w_ledger := l1\<rparr>)"
    using d1 by (simp add: jstep_def A_def jthread_new_def p1_def)
  from rt_resume [OF r6, of 0, simplified, OF this]
  have r7: "(cstep cfgs fc)\<^sup>*\<^sup>* (cstart l)
              \<lparr>c_world = w0\<lparr>w_ledger := l1\<rparr>, c_threads = [A\<lparr>jt_pc := JSave p1\<rparr>, B\<lparr>jt_pc := JPayNew m2\<rparr>]\<rparr>"
    by simp
  have a1l: "accounts l1 u = Some a1" by (simp add: l1_def a1_def book_def)
  have k2: "\<not> has_key u ''entryFee'' (match_id m2) l1"
    using fresh(2) lts(1) by (simp add: l1_def book_def ids entry_fee_txn_def new_match_id_inj)
  define l2 where "l2 = book u a1 (entry_fee_txn u (Some (match_id m2)) (Some lt2) (cfg_entryFee c2) 0) (- cfg_entryFee c2) 0 l1"
  have d2: "tryDebitUser u (entryFee m2) (Some (match_id m2)) (Some lt2) l1 = (True, l2)"
    unfolding l2_def ids(4) using tryDebitUser_pays [OF a1l fees(2) _ k2] fees by (simp add: a1_def)
  have "jstep cfgs (B\<lparr>jt_pc := JPayNew m2\<rparr>) (w0\<lparr>w_ledger := l1\<rparr>) = (B\<lparr>jt_pc := JSave p2\<rparr>, w0\<lparr>w_ledger := l2\<rparr>)"
    using d2 by (simp add: jstep_def B_def jthread_new_def p2_def)
  from rt_resume [OF r7, of 1, simplified, OF this]
  have r8: "(cstep cfgs fc)\<^sup>*\<^sup>* (cstart l)
              \<lparr>c_world = w0\<lparr>w_ledger := l2\<rparr>, c_threads = [A\<lparr>jt_pc := JSave p1\<rparr>, B\<lparr>jt_pc := JSave p2\<rparr>]\<rparr>"
    by simp
  define w3 where "w3 = w0\<lparr>w_ledger := l2, w_store := repo_save p1 (w_store w0)\<rparr>"
  have "jstep cfgs (A\<lparr>jt_pc := JSave p1\<rparr>) (w0\<lparr>w_ledger := l2\<rparr>) = (A\<lparr>jt_pc := JDone (Reply (toClientMatch p1 u now))\<rparr>, w3)"
    by (simp add: jstep_def A_def jthread_new_def w3_def)
  from rt_resume [OF r8, of 0, simplified, OF this]
  have r9: "(cstep cfgs fc)\<^sup>*\<^sup>* (cstart l)
              \<lparr>c_world = w3, c_threads = [A\<lparr>jt_pc := JDone (Reply (toClientMatch p1 u now))\<rparr>, B\<lparr>jt_pc := JSave p2\<rparr>]\<rparr>"
    by simp
  define w4 where "w4 = w3\<lparr>w_store := repo_save p2 (w_store w3)\<rparr>"
  have "jstep cfgs (B\<lparr>jt_pc := JSave p2\<rparr>) w3 = (B\<lparr>jt_pc := JDone (Reply (toClientMatch p2 u now))\<rparr>, w4)"
    by (simp add: jstep_def B_def jthread_new_def w4_def)
  from rt_resume [OF r9, of 1, simplified, OF this]
  have r10: "(cstep cfgs fc)\<^sup>*\<^sup>* (cstart l) \<lparr>c_world = w4, c_threads = [A\<lparr>jt_pc := JDone (Reply (toClientMatch p1 u now))\<rparr>,
                B\<lparr>jt_pc := JDone (Reply (toClientMatch p2 u now))\<rparr>]\<rparr>"
    by simp
  have ix: "index_ok (w_store w3)"
    by (simp add: w3_def w0_def start_def repo_save_index_ok empty_store_index_ok)
  have "p1 \<in> set (listAll (w_store w4))" "p2 \<in> set (listAll (w_store w4))"
    using listAll_save [OF ix, of p2] listAll_save [OF empty_store_index_ok, of p1] ids lts(1)
    by (auto simp: w4_def w3_def w0_def start_def p1_def p2_def new_match_id_inj)
  moreover have "active_for u p1" "active_for u p2" "match_id p1 \<noteq> match_id p2"
    using active_fresh_paid ids lts(1) by (simp_all add: p1_def p2_def m1_def m2_def new_match_id_inj)
  ultimately have "\<not> single_active (w_store w4)"
    unfolding single_active_def by blast
  moreover have "has_key u ''entryFee'' (new_match_id lt1 now) (w_ledger w4)"
    "has_key u ''entryFee'' (new_match_id lt2 now) (w_ledger w4)"
    by (simp_all add: w4_def w3_def l2_def l1_def book_def ids entry_fee_txn_def has_key_def)
  ultimately show ?thesis using creach_rt [OF r10 creach_start] by fastforce
qed

text \<open>C23: Two users who join the same waiting match at the same time both
  read it before either saves it (line 178), both pay (line 191), and each saves its own
  copy with its own seat added (lines 201-213): the later save erases the earlier seat. So
  from any state of the server in which the match is the free seat both would take, some
  interleaving answers both joins with success and debits both entry fees, while the
  stored match seats only the second user. Spec section 5 expects both seats to be kept
  (the match transiently over capacity); the code loses one paid seat instead.\<close>

theorem concurrent_joins_lost_seat:
  assumes v: "lt \<noteq> []" "u1 \<noteq> []" "u2 \<noteq> []" "u1 \<noteq> u2"
    and idle: "find (active_for u1) (listByUser (w_store (c_world s)) u1) = None"
              "find (active_for u2) (listByUser (w_store (c_world s)) u2) = None"
    and seat: "find (joinable cfgs lt u1) (listAll (w_store (c_world s))) = Some m"
              "find (joinable cfgs lt u2) (listAll (w_store (c_world s))) = Some m"
    and acc: "accounts (w_ledger (c_world s)) u1 = Some a1" "accounts (w_ledger (c_world s)) u2 = Some a2"
    and fee: "0 \<le> cfg_or cfgs lt cfg_entryFee 100" "cfg_or cfgs lt cfg_entryFee 100 \<le> gemBalance a1"
             "cfg_or cfgs lt cfg_entryFee 100 \<le> gemBalance a2"
    and fresh: "\<not> has_key u1 ''entryFee'' (match_id m) (w_ledger (c_world s))"
               "\<not> has_key u2 ''entryFee'' (match_id m) (w_ledger (c_world s))"
  shows "\<exists>s'. (cstep cfgs fc)\<^sup>*\<^sup>* s s' \<and>
           has_key u1 ''entryFee'' (match_id m) (w_ledger (c_world s')) \<and>
           has_key u2 ''entryFee'' (match_id m) (w_ledger (c_world s')) \<and>
           (\<exists>m'. repo_get (w_store (c_world s')) (match_id m) = Some m' \<and>
                 find_player m' u1 = None \<and> find_player m' u2 \<noteq> None) \<and>
           (\<exists>v1 v2. c_threads s' = c_threads s @ [(jthread_new now lt u1 None)\<lparr>jt_pc := JDone (Reply v1)\<rparr>,
                                                  (jthread_new now lt u2 None)\<lparr>jt_pc := JDone (Reply v2)\<rparr>])"
proof -
  define ts where "ts = c_threads s"
  define w where "w = c_world s"
  define A where "A = jthread_new now lt u1 None"
  define B where "B = jthread_new now lt u2 None"
  define fe where "fe = cfg_or cfgs lt cfg_entryFee 100"
  define dl where "dl = now + cfg_or cfgs lt cfg_gameDuration 300 * 1000"
  define q1 where "q1 = m\<lparr>players := players m @ [new_player u1 ''Player'' now dl True]\<rparr>"
  define q2 where "q2 = m\<lparr>players := players m @ [new_player u2 ''Player'' now dl True]\<rparr>"
  have ss: "s = \<lparr>c_world = w, c_threads = ts\<rparr>" by (simp add: w_def ts_def)
  have r2: "(cstep cfgs fc)\<^sup>*\<^sup>* s \<lparr>c_world = w, c_threads = ts @ [A, B]\<rparr>"
    using rt_arrive [OF rt_arrive [OF rtranclp.rtrancl_refl [of "cstep cfgs fc" s], of now lt u1 None], of now lt u2 None]
    by (simp add: A_def B_def ss)
  have "jstep cfgs A w = (A\<lparr>jt_pc := JNoActive\<rparr>, w)"
    using v idle by (simp add: jstep_def A_def jthread_new_def w_def)
  from rt_resume_app [OF r2, of 0, simplified, OF this]
  have r3: "(cstep cfgs fc)\<^sup>*\<^sup>* s \<lparr>c_world = w, c_threads = ts @ [A\<lparr>jt_pc := JNoActive\<rparr>, B]\<rparr>" by simp
  have "jstep cfgs B w = (B\<lparr>jt_pc := JNoActive\<rparr>, w)"
    using v idle by (simp add: jstep_def B_def jthread_new_def w_def)
  from rt_resume_app [OF r3, of 1, simplified, OF this]
  have r4: "(cstep cfgs fc)\<^sup>*\<^sup>* s \<lparr>c_world = w, c_threads = ts @ [A\<lparr>jt_pc := JNoActive\<rparr>, B\<lparr>jt_pc := JNoActive\<rparr>]\<rparr>"
    by simp
  have "jstep cfgs (A\<lparr>jt_pc := JNoActive\<rparr>) w = (A\<lparr>jt_pc := JPayExisting m\<rparr>, w)"
    using seat by (simp add: jstep_def A_def jthread_new_def w_def)
  from rt_resume_app [OF r4, of 0, simplified, OF this]
  have r5: "(cstep cfgs fc)\<^sup>*\<^sup>* s \<lparr>c_world = w, c_threads = ts @ [A\<lparr>jt_pc := JPayExisting m\<rparr>, B\<lparr>jt_pc := JNoActive\<rparr>]\<rparr>"
    by simp
  have "jstep cfgs (B\<lparr>jt_pc := JNoActive\<rparr>) w = (B\<lparr>jt_pc := JPayExisting m\<rparr>, w)"
    using seat by (simp add: jstep_def B_def jthread_new_def w_def)
  from rt_resume_app [OF r5, of 1, simplified, OF this]
  have r6: "(cstep cfgs fc)\<^sup>*\<^sup>* s \<lparr>c_world = w, c_threads = ts @ [A\<lparr>jt_pc := JPayExisting m\<rparr>, B\<lparr>jt_pc := JPayExisting m\<rparr>]\<rparr>"
    by simp
  define l1 where "l1 = book u1 a1 (entry_fee_txn u1 (Some (match_id m)) (Some lt) fe 0) (- fe) 0 (w_ledger w)"
  have d1: "tryDebitUser u1 fe (Some (match_id m)) (Some lt) (w_ledger w) = (True, l1)"
    unfolding l1_def fe_def using tryDebitUser_pays acc(1) fee(1,2) fresh(1) by (simp add: w_def)
  have "jstep cfgs (A\<lparr>jt_pc := JPayExisting m\<rparr>) w = (A\<lparr>jt_pc := JSave q1\<rparr>, w\<lparr>w_ledger := l1\<rparr>)"
    using d1 by (simp add: jstep_def A_def jthread_new_def q1_def dl_def fe_def)
  from rt_resume_app [OF r6, of 0, simplified, OF this]
  have r7: "(cstep cfgs fc)\<^sup>*\<^sup>* s \<lparr>c_world = w\<lparr>w_ledger := l1\<rparr>, c_threads = ts @ [A\<lparr>jt_pc := JSave q1\<rparr>, B\<lparr>jt_pc := JPayExisting m\<rparr>]\<rparr>"
    by simp
  have acc2: "accounts l1 u2 = Some a2" using acc(2) v(4) by (simp add: l1_def book_def w_def)
  have k2: "\<not> has_key u2 ''entryFee'' (match_id m) l1"
    using fresh(2) v(4) by (simp add: l1_def book_def entry_fee_txn_def w_def)
  define l2 where "l2 = book u2 a2 (entry_fee_txn u2 (Some (match_id m)) (Some lt) fe 0) (- fe) 0 l1"
  have d2: "tryDebitUser u2 fe (Some (match_id m)) (Some lt) l1 = (True, l2)"
    unfolding l2_def fe_def using tryDebitUser_pays [OF acc2 fee(1) fee(3) k2] .
  have "jstep cfgs (B\<lparr>jt_pc := JPayExisting m\<rparr>) (w\<lparr>w_ledger := l1\<rparr>) = (B\<lparr>jt_pc := JSave q2\<rparr>, w\<lparr>w_ledger := l2\<rparr>)"
    using d2 by (simp add: jstep_def B_def jthread_new_def q2_def dl_def fe_def)
  from rt_resume_app [OF r7, of 1, simplified, OF this]
  have r8: "(cstep cfgs fc)\<^sup>*\<^sup>* s \<lparr>c_world = w\<lparr>w_ledger := l2\<rparr>, c_threads = ts @ [A\<lparr>jt_pc := JSave q1\<rparr>, B\<lparr>jt_pc := JSave q2\<rparr>]\<rparr>"
    by simp
  define w3 where "w3 = w\<lparr>w_ledger := l2, w_store := repo_save q1 (w_store w)\<rparr>"
  have "jstep cfgs (A\<lparr>jt_pc := JSave q1\<rparr>) (w\<lparr>w_ledger := l2\<rparr>) = (A\<lparr>jt_pc := JDone (Reply (toClientMatch q1 u1 now))\<rparr>, w3)"
    by (simp add: jstep_def A_def jthread_new_def w3_def)
  from rt_resume_app [OF r8, of 0, simplified, OF this]
  have r9: "(cstep cfgs fc)\<^sup>*\<^sup>* s \<lparr>c_world = w3, c_threads = ts @ [A\<lparr>jt_pc := JDone (Reply (toClientMatch q1 u1 now))\<rparr>, B\<lparr>jt_pc := JSave q2\<rparr>]\<rparr>"
    by simp
  define w4 where "w4 = w3\<lparr>w_store := repo_save q2 (w_store w3)\<rparr>"
  have "jstep cfgs (B\<lparr>jt_pc := JSave q2\<rparr>) w3 = (B\<lparr>jt_pc := JDone (Reply (toClientMatch q2 u2 now))\<rparr>, w4)"
    by (simp add: jstep_def B_def jthread_new_def w4_def)
  from rt_resume_app [OF r9, of 1, simplified, OF this]
  have r10: "(cstep cfgs fc)\<^sup>*\<^sup>* s \<lparr>c_world = w4, c_threads = ts @ [A\<lparr>jt_pc := JDone (Reply (toClientMatch q1 u1 now))\<rparr>,
               B\<lparr>jt_pc := JDone (Reply (toClientMatch q2 u2 now))\<rparr>]\<rparr>"
    by simp
  have nf: "find_player m u1 = None" using find_Some_set [OF seat(1)] by (simp add: joinable_def)
  have "repo_get (w_store w4) (match_id m) = Some q2" by (simp add: w4_def repo_get_save q2_def)
  moreover have "find_player q2 u1 = None" "find_player q2 u2 \<noteq> None"
    using nf v(4) find_player_other [of u1 u2] find_player_seated by (simp_all add: q2_def)
  moreover have "has_key u1 ''entryFee'' (match_id m) (w_ledger w4)" "has_key u2 ''entryFee'' (match_id m) (w_ledger w4)"
    by (simp_all add: w4_def w3_def l2_def l1_def book_def entry_fee_txn_def has_key_def)
  ultimately show ?thesis using r10 unfolding ts_def A_def B_def by fastforce
qed

text \<open>C15: What survives the interleaving: in every state the concurrent server
  reaches, every stored match is waiting, within its lobby's capacity, and seats distinct
  users each of whom has an entry-fee row for that match in the journal. A join copies a
  match before it pays and saves the copy afterwards, so a save can erase seats (the lost-seat race
  above) but never adds an unpaid one or exceeds the capacity.\<close>

theorem creach_store_inv:
  assumes "cfgs_ok cfgs" and "creach cfgs fc s"
  shows "store_inv cfgs (c_world s)"
proof -
  have "csys_inv cfgs s"
    using assms(2)
  proof (induction rule: creach.induct)
    case (creach_start l)
    then show ?case
      by (simp add: csys_inv_def cstart_def store_inv_def start_def index_ok_def listAll_def empty_store_def)
  next
    case (creach_step s s')
    then show ?case using cstep_inv [OF assms(1)] by blast
  qed
  then show ?thesis by (simp add: csys_inv_def)
qed

section \<open>Witnesses\<close>

theorem concurrent_joins_double_active_witness:
  "demo_two ''classic'' \<noteq> None \<and> demo_two ''blitz'' \<noteq> None \<and>
   (\<exists>s. creach demo_two None s \<and> \<not> single_active (w_store (c_world s)) \<and>
      has_key ''alice'' ''entryFee'' (new_match_id ''classic'' 1000) (w_ledger (c_world s)) \<and>
      has_key ''alice'' ''entryFee'' (new_match_id ''blitz'' 1000) (w_ledger (c_world s)))"
proof -
  have c: "demo_two ''classic'' = Some (demo_cfg\<lparr>cfg_entryFee := 50\<rparr>)"
    "demo_two ''blitz'' = Some (demo_cfg\<lparr>cfg_lobbyType := ''blitz'', cfg_entryFee := 50\<rparr>)"
    by (simp_all add: demo_two_def)
  have l: "''classic'' \<noteq> ''blitz''" "''classic'' \<noteq> []" "''blitz'' \<noteq> []" "''alice'' \<noteq> []" by simp_all
  have a: "accounts demo_ledger ''alice'' = Some \<lparr>gemBalance = 100, bonusGems = 0\<rparr>"
    by (simp add: demo_ledger_def)
  have f: "0 \<le> cfg_entryFee (demo_cfg\<lparr>cfg_entryFee := 50\<rparr>)"
    "0 \<le> cfg_entryFee (demo_cfg\<lparr>cfg_lobbyType := ''blitz'', cfg_entryFee := 50\<rparr>)"
    "cfg_entryFee (demo_cfg\<lparr>cfg_entryFee := 50\<rparr>) +
       cfg_entryFee (demo_cfg\<lparr>cfg_lobbyType := ''blitz'', cfg_entryFee := 50\<rparr>)
       \<le> gemBalance \<lparr>gemBalance = 100, bonusGems = 0\<rparr>"
    by simp_all
  have k: "\<not> has_key ''alice'' ''entryFee'' (new_match_id ''classic'' 1000) demo_ledger"
    "\<not> has_key ''alice'' ''entryFee'' (new_match_id ''blitz'' 1000) demo_ledger"
    by (simp_all add: has_key_def demo_ledger_def)
  show ?thesis
    using concurrent_joins_double_active [OF c l a f k, where fc = None] c by simp
qed

theorem concurrent_joins_lost_seat_witness:
  "find (active_for ''carol'') (listByUser (w_store race_world) ''carol'') = None \<and>
   find (joinable demo_cfgs ''classic'' ''dave'') (listAll (w_store race_world)) = Some demo_match \<and>
   (\<exists>s'. (cstep demo_cfgs None)\<^sup>*\<^sup>* \<lparr>c_world = race_world, c_threads = []\<rparr> s' \<and>
      (\<exists>m'. repo_get (w_store (c_world s')) ''classic-1'' = Some m' \<and>
            find_player m' ''carol'' = None \<and> find_player m' ''dave'' \<noteq> None))"
proof -
  let ?s = "\<lparr>c_world = race_world, c_threads = []\<rparr>"
  have v: "''classic'' \<noteq> []" "''carol'' \<noteq> []" "''dave'' \<noteq> []" "''carol'' \<noteq> ''dave''" by simp_all
  have i: "find (active_for ''carol'') (listByUser (w_store (c_world ?s)) ''carol'') = None"
    "find (active_for ''dave'') (listByUser (w_store (c_world ?s)) ''dave'') = None"
    by (simp_all add: race_world_def world_eval_defs listByUser_def)
  have j: "find (joinable demo_cfgs ''classic'' ''carol'') (listAll (w_store (c_world ?s))) = Some demo_match"
    "find (joinable demo_cfgs ''classic'' ''dave'') (listAll (w_store (c_world ?s))) = Some demo_match"
    by (simp_all add: race_world_def world_eval_defs listAll_def joinable_def)
  have a: "accounts (w_ledger (c_world ?s)) ''carol'' = Some \<lparr>gemBalance = 100, bonusGems = 0\<rparr>"
    "accounts (w_ledger (c_world ?s)) ''dave'' = Some \<lparr>gemBalance = 100, bonusGems = 0\<rparr>"
    by (simp_all add: race_world_def)
  have f: "0 \<le> cfg_or demo_cfgs ''classic'' cfg_entryFee 100"
    "cfg_or demo_cfgs ''classic'' cfg_entryFee 100 \<le> gemBalance \<lparr>gemBalance = 100, bonusGems = 0\<rparr>"
    "cfg_or demo_cfgs ''classic'' cfg_entryFee 100 \<le> gemBalance \<lparr>gemBalance = 100, bonusGems = 0\<rparr>"
    by (simp_all add: world_eval_defs)
  have k: "\<not> has_key ''carol'' ''entryFee'' (match_id demo_match) (w_ledger (c_world ?s))"
    "\<not> has_key ''dave'' ''entryFee'' (match_id demo_match) (w_ledger (c_world ?s))"
    by (simp_all add: has_key_def race_world_def)
  have m: "match_id demo_match = ''classic-1''" by (simp add: demo_match_def)
  show ?thesis
    using concurrent_joins_lost_seat [OF v i j a f k, where fc = None and now = 1000] i j m by auto
qed

theorem creach_store_inv_witness:
  "cfgs_ok demo_cfgs \<and>
   creach demo_cfgs None \<lparr>c_world = start demo_ledger, c_threads = [jthread_new 1000 ''classic'' ''alice'' None]\<rparr> \<and>
   store_inv demo_cfgs (start demo_ledger)"
proof -
  have ok: "cfgs_ok demo_cfgs" by (simp add: cfgs_ok_def demo_cfgs_def demo_cfg_def)
  have r: "creach demo_cfgs None \<lparr>c_world = start demo_ledger, c_threads = [jthread_new 1000 ''classic'' ''alice'' None]\<rparr>"
    using creach.creach_step [OF creach.creach_start cstep.c_arrive, of demo_cfgs None demo_ledger 1000 "''classic''" "''alice''" None]
    by (simp add: cstart_def)
  show ?thesis using creach_store_inv [OF ok r] ok r by simp
qed

end
