(* ===== verification/Spec2Isabelle.thy ===== *)
theory Spec2Isabelle
  imports Engine Users Queries Provision DevTools Http Assets Api Concurrency
begin

text \<open>
  Verification development of the gem-scramble backend (src/backend/src), a word game
  server: players join a lobby, pay an entry fee in gems, find words on a shared dice
  board before their own deadline, and the prize pool is shared out by rank.

  \<^bold>\<open>Parts of the program and how they interact.\<close>
  The HTTP handlers of modules/matches.ts (the lifecycle engine) read and write match
  documents in the Redis match store (repositories/redisMatchRepository.ts), debit and
  credit users through the ledger (services/database.ts), check words with the
  dictionary (services/dictionary.ts) and the board checker (utils/wordValidation.ts),
  draw boards with utils/board.ts, read lobbies from config/lobbies.ts and rank players
  with utils/payout.ts. A background tick in server.ts sweeps the store every ten
  seconds, auto-submits players past their deadline, settles full matches and removes
  expired ones. Requests reach the handlers through the Express application of
  server.ts, which runs the \<open>authFirebase\<close> middleware (middlewares/authFirebase.ts, with
  config/auth.ts and config/firebase.ts) before the routers of \<open>/matches\<close>, \<open>/users\<close> and
  \<open>/wallet\<close>; the handlers find their caller with \<open>getRequestingUser\<close>. The read-only
  modules (validate.ts, boards.ts, lobbies.ts, wallet.ts) and the GET handlers of
  matches.ts and users.ts read the same store, ledger and history.

  \<^bold>\<open>Theories, bottom up.\<close>
  \<^item> \<open>Prelude\<close>: type names (ids, milliseconds, boards) and generic lemmas on lists,
    association lists, \<open>find\<close>, floors and integer sums.
  \<^item> \<open>MatchState\<close>: \<open>MatchPlayer\<close> and \<open>InternalMatch\<close> of state/match.interface.ts as
    records, the match status as a datatype, a player's deadline.
  \<^item> \<open>Payout\<close>: \<open>rankAndAllocateWinnings\<close> in full (stable sort, base amounts with
    the remainder to rank 1, tie bands shared with the remainder dealt one unit at a
    time). Lemmas: winnings sum to the pool, competition ranks, ties, permutation,
    nonnegativity.
  \<^item> \<open>WordValidation\<close>: \<open>canFormWordOnBoard\<close> with its depth-first search as a
    \<open>function\<close> whose termination measure (\<open>dfs_order\<close>: the number of unvisited cells,
    then the remaining neighbour offsets) is shown to contain every recursive call; the
    search is shown equal to an existence-of-path specification.
  \<^item> \<open>Dictionary\<close>: the trie, \<open>initDictionary\<close> from the file content or the fallback
    list, and the module's \<open>isWord\<close>/\<open>hasPrefix\<close>; refinement of the trie by the set of
    dictionary words.
  \<^item> \<open>Board\<close>: \<open>generateDiceBoard\<close> with the 32-bit seed as a \<open>32 word\<close>, the LCG, the
    Fisher-Yates shuffle and the row-major fill; the LCG is shown exact in double
    precision.
  \<^item> \<open>Ledger\<close>: \<open>addTransaction\<close>, \<open>tryDebitUser\<close>, \<open>creditPrize\<close> on an explicit ledger
    (accounts and journal), a Prisma transaction as commit or roll-back, and the
    journal's unique key (user, match, type), which is not in src/ and is modelled from
    the specification. Lemmas: idempotence of debits and credits, balance-journal
    drift, nonnegative balances, the journal only grows.
  \<^item> \<open>Store\<close>: every operation of \<open>RedisMatchRepository\<close> on documents, user index sets
    and waiting pointers; the consistency invariant \<open>index_ok\<close> and \<open>listByUser\<close> exact.
  \<^item> \<open>Lobbies\<close>: \<open>validateLobbyConfig\<close>, \<open>loadLobbyConfig\<close> and \<open>getLobbyConfig\<close> on
    parsed JSON, with the exception that a null entry raises.
  \<^item> \<open>Lifecycle\<close>: the world (store, ledger, completed-match history, dictionary state)
    and the handlers \<open>join\<close>, \<open>leave\<close>, \<open>saveWords\<close>, \<open>validateWord\<close>, \<open>submit\<close> with
    \<open>saveCompletedMatch\<close>, settlement (\<open>settle\<close>) and \<open>toClientMatch\<close>, each a function
    from the world to a reply (value, 409 conflict or failure with its status) and
    the next world. Lemmas: the duplicate removal of the kept words equals \<open>remdups\<close>,
    time-bonus bounds, the late-submission error; a seat that has submitted can submit
    again and is overwritten; the only player of a waiting match cannot leave it.
  \<^item> \<open>Sweep\<close>: \<open>autoSubmitWordsForPlayer\<close>, \<open>processMatchTimeout\<close> (whose completion
    branch is \<open>settle\<close>) and the tick as a fold over the \<open>listAll\<close> snapshot. Lemmas:
    every expired match leaves the store at the next tick; after a tick no stored player
    is past the deadline unsubmitted; an unfilled match leaves the store without
    settlement or refund.
  \<^item> \<open>Users\<close>: the user table beside the ledger, \<open>getOrCreateUserByAuthUid\<close>,
    \<open>getUserById\<close>, \<open>getUserBalance\<close>, and the handlers \<open>GET /users/me\<close> and
    \<open>POST /users/username\<close> of modules/users.ts, with the unique columns
    \<open>authUid\<close> and \<open>username\<close>. Lemmas: both handlers keep ids, uids and usernames
    unique; a new user gets 100 gems without a journal row and is found again; a taken
    username is refused with 409.
  \<^item> \<open>Engine\<close>: the requests as a datatype, \<open>serve\<close> running one request, and
    \<open>reach\<close>, the worlds reachable from a fresh server when requests are served one
    after the other. The invariant \<open>engine_inv\<close> (consistent store; every stored match
    waiting, within capacity, with distinct paid players; no user active in two matches)
    is kept by every handler and by the tick, hence holds of every such world. The
    relation \<open>tame\<close> describes what every request but a join does to the world, and keeps
    the per-match part \<open>store_inv\<close> of the invariant. A successful join
    makes every later join of the same user a no-op, so retried joins never debit twice.
    The request \<open>Init\<close> is the start-up \<open>initDictionary()\<close> of server.ts, which runs
    after the server listens, so requests may come before it.
  \<^item> \<open>Auth\<close>: \<open>getAuthMode\<close> and \<open>isDevAuth\<close> (config/auth.ts) on the environment
    variables, \<open>initFirebase\<close> and \<open>verifyIdToken\<close> (config/firebase.ts) with the Firebase
    SDK's token check as a parameter function, the \<open>authFirebase\<close> middleware, the caller
    lookup \<open>getRequestingUser\<close> of modules/users.ts (wallet.ts and matches.ts hold copies)
    and the dev-mode \<open>POST /users/login-or-register\<close>. Lemmas: in Firebase mode the caller
    is the user of a verified token whatever the body says; by default the server runs in
    dev mode, where any client acts as any user; without the Firebase variables a token is
    refused even in dev mode; the dev login keeps the user table consistent.
  \<^item> \<open>Queries\<close>: the read-only handlers: validate.ts, boards.ts, lobbies.ts (the
    waiting-player counts), wallet.ts (paging of the journal), \<open>GET /matches/:matchId\<close>,
    its details, \<open>GET /matches\<close> and \<open>GET /users/matches\<close>, each a function of the
    request and the world. Lemmas: a join raises its lobby's count by one; paging covers
    the journal; a completed match is read back from its history row unchanged; the two
    timers disagree.
  \<^item> \<open>Provision\<close>: \<open>createWaitingMatch\<close> and \<open>ensureWaitingMatches\<close> of modules/matches.ts,
    which no code calls. Lemmas: it keeps the engine invariant and leaves every lobby
    served; run in the millisecond of a join it overwrites the joined match.
  \<^item> \<open>DevTools\<close>: \<open>POST /matches/dev/simulate\<close> and \<open>POST /matches/dev/verify\<close>, with
    JavaScript \<open>Map\<close>s as association lists. The allocator is shown idempotent on its own
    output, so the verifier, which re-runs it on the recorded players, reproduces the
    recorded winnings; hence a simulated match verifies.
  \<^item> \<open>Http\<close>: the Express application of server.ts: the top-level routes, the six routers
    mounted under their prefixes with their route tables, the \<open>authFirebase\<close> guard of
    \<open>/matches\<close>, \<open>/users\<close> and \<open>/wallet\<close>, and Express's first-match dispatch, in which a
    router without a route for the request passes it on; \<open>GET /config\<close>. Lemmas: in
    Firebase mode every guarded route runs for a verified token only; every route is
    reachable; the status check registered last under \<open>/health\<close> never runs; \<open>/config\<close>
    can report a mode the server does not run in.
  \<^item> \<open>Assets\<close>: the build script scripts/copy-assets.js on a file system of paths to
    files and directories (Node's \<open>fs\<close> and \<open>path\<close> functions from their documented
    behaviour, an uncaught exception as an error value), \<open>resolveWordsPath\<close> and the file
    reads of \<open>initDictionary\<close> and \<open>loadLobbyConfig\<close>. Lemmas: the script keeps the tree
    well formed, and the dist directory it fills, shipped alone, gives the compiled server
    the source lobby file and word file, hence the same catalogue and dictionary.
  \<^item> \<open>Api\<close>: one HTTP request on the server's state (the world and the user table,
    whose accounts are the world's ledger): the Express dispatch of theory \<open>Http\<close>, the
    caller's resolution by \<open>getRequestingUser\<close> on every route that calls it (GET routes
    included, where it creates the account of a new token uid), the zod schemas of the
    POST routes of modules/matches.ts and of \<open>POST /users/username\<close> (a failed parse
    answers 400 and changes nothing), and each route's handler. Lemmas: the join route
    acts for the body's \<open>userId\<close>, whoever the verified caller is; the first profile read
    of a new token uid creates its account of 100 gems.
  \<^item> \<open>Concurrency\<close>: the join handler as Node runs it, suspended at each \<open>await\<close>
    (matches.ts lines 139-275): a join in progress is a thread with a program counter
    (\<open>join_pc\<close>), \<open>jstep\<close> runs one awaited call and the code up to the next, and
    \<open>cstep\<close> interleaves arriving joins, resumed joins and the other requests, which stay
    atomic. Lemmas: a join that runs alone answers as \<open>Lifecycle.join\<close>; the per-match
    invariant \<open>store_inv\<close> (stored matches waiting, within capacity, with distinct paid
    players) holds in every reachable state (with \<open>thread_ok\<close> for the joins in
    progress); two joins of one user for two lobbies both pass the active-match check
    and leave the user active twice, charged twice; two users who join the same free
    seat both pay and the second save drops the first seat.
  \<^item> This theory: the properties that span the allocator, the crediting loop of
    \<open>settle\<close> and the ledger. The allocator keeps the multiset of player ids
    (\<open>Lifecycle.ranked_ids\<close>), so settling a match whose players have distinct ids and accounts
    and no prize row yet credits each user exactly that user's positive winnings
    (\<open>settle_credits\<close>).

  \<^bold>\<open>Choices of the model.\<close> Time is the request's \<open>Date.now()\<close>, one value per request
  and one per tick. ISO timestamps are millisecond counts. In \<open>Engine.reach\<close> a request
  or a tick is one atomic step. The join handler is the one whose awaits let two requests
  race on the same documents, and theory \<open>Concurrency\<close> splits it at its awaits; its
  repository calls and ledger transactions stay atomic (a Redis command and a Prisma
  transaction are), and so do the other handlers and the tick, which the flag
  \<open>__tickRunning\<close> keeps from overlapping itself. Interleavings inside the other
  handlers (leave, submit, the tick's per-match loop) are not modelled.
  The lobby catalogue and the dictionary file are parameters fixed for a run. Nothing
  needs fuel: every loop of the code is over a finite list, and the one non-structural
  recursion (the board search) has a termination proof.

  \<^bold>\<open>Not modelled.\<close> The global middlewares of server.ts (helmet, cors, the body limit,
  logging), the error handler, listen and shutdown, whose behaviour is that of
  third-party code and holds no state of the model; zod parsing of the routes other than the POST routes of the matches router and the
  rename; the Firebase SDK's verification of a token, a parameter function here;
  Prisma's \<open>string_contains\<close> filter of \<open>GET /users/matches\<close>, taken as an exact match on
  the player ids; the columns \<open>cashBalance\<close> and \<open>bonusBalance\<close>, which no code reads; client
  construction (config/prisma.ts) and the repository factory
  (repositories/matchRepository.ts); the id helper utils/id.ts, which no code calls; the
  console output of the build script; Redis and Postgres failures, which the handlers
  turn into status 500 without changing state, and the one-hour key expiry of Redis.
\<close>

section \<open>Properties spanning components\<close>

text \<open>C5: Settling a completed match (the payout of \<open>submit\<close> and of the tick)
  credits every user exactly that user's positive winnings from \<open>rankAndAllocateWinnings\<close>,
  once, when the seated players have distinct ids and accounts and the match was not yet
  paid out: the allocator, the crediting loop and the ledger agree.\<close>

theorem settle_credits:
  assumes "distinct (map player_id (players m))"
    "\<forall>p \<in> set (players m). accounts (w_ledger w) (player_id p) \<noteq> None \<and>
                             \<not> has_key (player_id p) ''prize'' (match_id m) (w_ledger w)"
    "payoutAt m = None"
  shows "balance_total (w_ledger (snd (settle cfgs now m w))) v =
         balance_total (w_ledger w) v +
         sum_list (map (\<lambda>p. if player_id p = v \<and> 0 < winnings_of p then winnings_of p else 0)
           (rankAndAllocateWinnings (players m) (prizePool m) (cfg_or cfgs (lobbyType m) cfg_payoutMultipliers [])))"
proof -
  let ?r = "rankAndAllocateWinnings (players m) (prizePool m) (cfg_or cfgs (lobbyType m) cfg_payoutMultipliers [])"
  have ms: "mset (map player_id ?r) = mset (map player_id (players m))" by (rule ranked_ids)
  then have d: "distinct (map player_id ?r)" using assms(1) by (metis mset_eq_imp_distinct_iff)
  have "\<forall>p \<in> set ?r. accounts (w_ledger w) (player_id p) \<noteq> None \<and>
                     \<not> has_key (player_id p) ''prize'' (match_id m) (w_ledger w)"
  proof
    fix p
    assume "p \<in> set ?r"
    then have "player_id p \<in> set (map player_id (players m))" using mset_eq_setD [OF ms] by auto
    then obtain q where "q \<in> set (players m)" "player_id q = player_id p" by auto
    then show "accounts (w_ledger w) (player_id p) \<noteq> None \<and> \<not> has_key (player_id p) ''prize'' (match_id m) (w_ledger w)"
      using assms(2) by metis
  qed
  then show ?thesis
    using credit_all_balance [OF d] assms(3) by (simp add: settle_def Let_def)
qed

section \<open>Witnesses\<close>

theorem settle_credits_witness:
  "distinct (map player_id (players (demo_match\<lparr>players := players demo_match @ [new_player ''bob'' ''Bob'' 0 120000 True]\<rparr>))) \<and>
   payoutAt demo_match = None \<and>
   balance_total (w_ledger (snd (settle demo_cfgs 50000
       (demo_match\<lparr>players := players demo_match @ [new_player ''bob'' ''Bob'' 0 120000 True]\<rparr>) demo_world))) ''bob'' =
   50 + 50 + sum_list (map (\<lambda>p. if player_id p = ''bob'' \<and> 0 < winnings_of p then winnings_of p else 0)
      (rankAndAllocateWinnings (players demo_match @ [new_player ''bob'' ''Bob'' 0 120000 True]) 500 [2]))"
  using settle_credits [where m = "demo_match\<lparr>players := players demo_match @ [new_player ''bob'' ''Bob'' 0 120000 True]\<rparr>"
      and w = demo_world and cfgs = demo_cfgs and now = 50000 and v = "''bob''"]
  by (simp add: world_eval_defs demo_ledger_def has_key_def balance_total_def)

end
